theory Spec2Isabelle
  imports Complex_Main "HOL-Library.AList"
begin

section \<open>Fixed-step solvers for scalar initial value problems\<close>

text \<open>
  A shallow embedding of \<^verbatim>\<open>src/euler.py\<close> and \<^verbatim>\<open>src/analysis.py\<close>.

  Numbers: Python floats are embedded as exact reals (\<^typ>\<open>real\<close>), Python integers as
  \<^typ>\<open>int\<close>. In this first embedding, rounding error, overflow, infinities and NaN
  produced by float arithmetic are outside the model, and what is proved of it is about
  the algorithms in exact arithmetic. The solvers are embedded a second time with every
  arithmetic result rounded (section ``The solvers in rounded arithmetic''); the
  statements that depend on how a time update is rounded are made there. The one NaN
  the code writes on purpose, \<^verbatim>\<open>np.nan\<close> as the "no value" marker of the comparison
  table, is \<^const>\<open>None\<close> in a \<^typ>\<open>real option\<close>.

  Failures: every \<^verbatim>\<open>assert\<close> and every exception the modelled code can raise is a
  value of \<open>py_error\<close>; a function that can fail returns \<open>py_error + 'a\<close>.
\<close>

datatype py_error = AssertionError | ZeroDivisionError | IndexError | ValueError

subsection \<open>Python and numpy primitives\<close>

text \<open>
  Python's \<^verbatim>\<open>round(x)\<close> on a float returns the nearest integer and rounds a tie to the
  even neighbour (\<^verbatim>\<open>round(0.5) == 0\<close>, \<^verbatim>\<open>round(1.5) == 2\<close>), unlike HOL's \<^const>\<open>round\<close>.
\<close>

definition py_round :: "real \<Rightarrow> int" where
  "py_round x =
     (let n = \<lfloor>x\<rfloor>; r = x - of_int n
      in if r < 1 / 2 then n
         else if 1 / 2 < r then n + 1
         else if even n then n else n + 1)"

text \<open>\<^verbatim>\<open>for _ in range(n): body\<close> on a loop state: a negative \<open>n\<close> gives no iteration.\<close>

definition for_range :: "int \<Rightarrow> ('s \<Rightarrow> 's) \<Rightarrow> 's \<Rightarrow> 's" where
  "for_range n body s = (body ^^ nat n) s"

text \<open>
  \<^verbatim>\<open>np.linspace(start, stop, num)\<close> with the default \<^verbatim>\<open>endpoint=True\<close>: \<open>num\<close> evenly
  spaced samples, the first \<open>start\<close> and (for \<open>num > 1\<close>) the last \<open>stop\<close>; a negative
  \<open>num\<close> raises \<^verbatim>\<open>ValueError\<close>.
\<close>

definition linspace :: "real \<Rightarrow> real \<Rightarrow> int \<Rightarrow> py_error + real list" where
  "linspace start stop num =
     (if num < 0 then Inl ValueError
      else if num = 1 then Inr [start]
      else Inr (map (\<lambda>i. start + real i * ((stop - start) / real (nat num - 1)))
                  [0..<nat num]))"

text \<open>
  \<^verbatim>\<open>l[i] = v\<close> on a Python list: an index in \<open>[-len, len)\<close> is accepted, a negative one
  counting from the end; any other raises \<^verbatim>\<open>IndexError\<close>.
\<close>

definition list_setitem :: "'a list \<Rightarrow> int \<Rightarrow> 'a \<Rightarrow> py_error + 'a list" where
  "list_setitem l i v =
     (let n = int (length l); j = (if i < 0 then n + i else i)
      in if 0 \<le> j \<and> j < n then Inr (l[nat j := v]) else Inl IndexError)"

text \<open>\<^verbatim>\<open>range(0, n, step)\<close> as a list: a zero step raises, a negative one is empty.\<close>

definition range_step :: "nat \<Rightarrow> int \<Rightarrow> py_error + nat list" where
  "range_step n step =
     (if step = 0 then Inl ValueError
      else if step < 0 then Inr []
      else Inr (filter (\<lambda>j. int j mod step = 0) [0..<n]))"

subsection \<open>The fixed-point iteration of the implicit solvers\<close>

text \<open>
  The loop that \<^verbatim>\<open>euler_implicit\<close> and \<^verbatim>\<open>euler_trapezium\<close> each write out twice:
  \<^verbatim>\<open>
      epoch = 0
      while True:
          epoch += 1
          y__ = <update of y_>
          if abs(y__ - y_) < threshold or epoch > epochs:
              break
          y_ = y__
  \<close>
  The four copies differ only in the update expression, the parameter \<open>upd\<close> here.
  The source's variables \<^verbatim>\<open>y_\<close> and \<^verbatim>\<open>y__\<close> are written \<open>y'\<close> and \<open>y''\<close>. The
  result is the state of the three local variables \<open>(y', y'', epoch)\<close> at the
  \<^verbatim>\<open>break\<close>; \<open>epoch\<close> then counts the iterations executed.
\<close>

function fixed_point_loop ::
  "(real \<Rightarrow> real) \<Rightarrow> real \<Rightarrow> int \<Rightarrow> int \<Rightarrow> real \<Rightarrow> real \<times> real \<times> int" where
  "fixed_point_loop upd threshold epochs epoch y' =
     (if \<bar>upd y' - y'\<bar> < threshold \<or> epoch + 1 > epochs
      then (y', upd y', epoch + 1)
      else fixed_point_loop upd threshold epochs (epoch + 1) (upd y'))"
  by pat_completeness auto
termination
  by (relation "measure (\<lambda>(upd, threshold, epochs, epoch, y'). nat (epochs - epoch))") auto

text \<open>The equation is unfolded on demand only: as a rewrite rule it would never stop.\<close>

declare fixed_point_loop.simps [simp del]

subsection \<open>The four solvers\<close>

text \<open>
  Each solver returns the pair \<open>(t_list, y_list)\<close>. The loop state of the backward pass
  is \<open>(ti, yi, t_temp, y_temp)\<close>, that of the forward pass \<open>(ti, yi, t_list, y_list)\<close>.
  \<^verbatim>\<open>round((t0 - a)/h)\<close> is the first expression evaluated after the assertion; it raises
  \<^verbatim>\<open>ZeroDivisionError\<close> for \<open>h = 0\<close>.
\<close>

type_synonym trajectory = "real list \<times> real list"

type_synonym loop_state = "real \<times> real \<times> real list \<times> real list"

definition euler_explicit ::
  "(real \<Rightarrow> real \<Rightarrow> real) \<Rightarrow> real \<Rightarrow> real \<Rightarrow> real \<Rightarrow> real \<Rightarrow> real \<Rightarrow> py_error + trajectory" where
  "euler_explicit f a b t0 y0 h =
     (if \<not> (a \<le> t0 \<and> t0 \<le> b) then Inl AssertionError
      else if h = 0 then Inl ZeroDivisionError
      else
        let (ti, yi, t_temp, y_temp) =
              for_range (py_round ((t0 - a) / h))
                (\<lambda>(ti, yi, t_temp, y_temp).
                   let y' = yi - h * f ti yi
                   in (ti - h, y', t_temp @ [ti - h], y_temp @ [y']))
                (t0, y0, [], []);
            (t_list, y_list) =
              (if t_temp \<noteq> [] \<and> y_temp \<noteq> [] then (rev t_temp, rev y_temp) else ([], []));
            (ti, yi, t_list, y_list) =
              for_range (py_round ((b - t0) / h))
                (\<lambda>(ti, yi, t_list, y_list).
                   let y' = yi + h * f ti yi
                   in (ti + h, y', t_list @ [ti + h], y_list @ [y']))
                (t0, y0, t_list @ [t0], y_list @ [y0])
        in Inr (t_list, y_list))"

definition euler_implicit ::
  "(real \<Rightarrow> real \<Rightarrow> real) \<Rightarrow> real \<Rightarrow> real \<Rightarrow> real \<Rightarrow> real \<Rightarrow> real \<Rightarrow> real \<Rightarrow> int
     \<Rightarrow> py_error + trajectory" where
  "euler_implicit f a b t0 y0 h threshold epochs =
     (if \<not> (a \<le> t0 \<and> t0 \<le> b) then Inl AssertionError
      else if h = 0 then Inl ZeroDivisionError
      else
        let (ti, yi, t_temp, y_temp) =
              for_range (py_round ((t0 - a) / h))
                (\<lambda>(ti, yi, t_temp, y_temp).
                   let y' = yi - h * f ti yi;
                       (y', y'', epoch) =
                         fixed_point_loop (\<lambda>y'. yi - h * f (ti - h) y') threshold epochs 0 y'
                   in (ti - h, y', t_temp @ [ti - h], y_temp @ [y']))
                (t0, y0, [], []);
            (t_list, y_list) =
              (if t_temp \<noteq> [] \<and> y_temp \<noteq> [] then (rev t_temp, rev y_temp) else ([], []));
            (ti, yi, t_list, y_list) =
              for_range (py_round ((b - t0) / h))
                (\<lambda>(ti, yi, t_list, y_list).
                   let y' = yi + h * f ti yi;
                       (y', y'', epoch) =
                         fixed_point_loop (\<lambda>y'. yi + h * f (ti + h) y') threshold epochs 0 y'
                   in (ti + h, y', t_list @ [ti + h], y_list @ [y']))
                (t0, y0, t_list @ [t0], y_list @ [y0])
        in Inr (t_list, y_list))"

definition euler_trapezium ::
  "(real \<Rightarrow> real \<Rightarrow> real) \<Rightarrow> real \<Rightarrow> real \<Rightarrow> real \<Rightarrow> real \<Rightarrow> real \<Rightarrow> real \<Rightarrow> int
     \<Rightarrow> py_error + trajectory" where
  "euler_trapezium f a b t0 y0 h threshold epochs =
     (if \<not> (a \<le> t0 \<and> t0 \<le> b) then Inl AssertionError
      else if h = 0 then Inl ZeroDivisionError
      else
        let (ti, yi, t_temp, y_temp) =
              for_range (py_round ((t0 - a) / h))
                (\<lambda>(ti, yi, t_temp, y_temp).
                   let y' = yi - h * f ti yi;
                       (y', y'', epoch) =
                         fixed_point_loop
                           (\<lambda>y'. yi - (1 / 2) * h * (f ti yi + f (ti - h) y'))
                           threshold epochs 0 y'
                   in (ti - h, y', t_temp @ [ti - h], y_temp @ [y']))
                (t0, y0, [], []);
            (t_list, y_list) =
              (if t_temp \<noteq> [] \<and> y_temp \<noteq> [] then (rev t_temp, rev y_temp) else ([], []));
            (ti, yi, t_list, y_list) =
              for_range (py_round ((b - t0) / h))
                (\<lambda>(ti, yi, t_list, y_list).
                   let y' = yi + h * f ti yi;
                       (y', y'', epoch) =
                         fixed_point_loop
                           (\<lambda>y'. yi + (1 / 2) * h * (f ti yi + f (ti + h) y'))
                           threshold epochs 0 y'
                   in (ti + h, y', t_list @ [ti + h], y_list @ [y']))
                (t0, y0, t_list @ [t0], y_list @ [y0])
        in Inr (t_list, y_list))"

definition euler_improved ::
  "(real \<Rightarrow> real \<Rightarrow> real) \<Rightarrow> real \<Rightarrow> real \<Rightarrow> real \<Rightarrow> real \<Rightarrow> real \<Rightarrow> py_error + trajectory" where
  "euler_improved f a b t0 y0 h =
     (if \<not> (a \<le> t0 \<and> t0 \<le> b) then Inl AssertionError
      else if h = 0 then Inl ZeroDivisionError
      else
        let (ti, yi, t_temp, y_temp) =
              for_range (py_round ((t0 - a) / h))
                (\<lambda>(ti, yi, t_temp, y_temp).
                   let y' = yi - h * f ti yi;
                       y' = yi - (1 / 2) * h * (f ti yi + f (ti - h) y')
                   in (ti - h, y', t_temp @ [ti - h], y_temp @ [y']))
                (t0, y0, [], []);
            (t_list, y_list) =
              (if t_temp \<noteq> [] \<and> y_temp \<noteq> [] then (rev t_temp, rev y_temp) else ([], []));
            (ti, yi, t_list, y_list) =
              for_range (py_round ((b - t0) / h))
                (\<lambda>(ti, yi, t_list, y_list).
                   let y' = yi + h * f ti yi;
                       y' = yi + (1 / 2) * h * (f ti yi + f (ti + h) y')
                   in (ti + h, y', t_list @ [ti + h], y_list @ [y']))
                (t0, y0, t_list @ [t0], y_list @ [y0])
        in Inr (t_list, y_list))"

subsection \<open>The comparison table\<close>

text \<open>
  What the harnesses use of a pandas \<^verbatim>\<open>DataFrame\<close>: a number of rows and an ordered list
  of labelled columns, each as long as the frame. A column holds floats or the "no value"
  marker \<^verbatim>\<open>np.nan\<close>. The label \<^verbatim>\<open>'t'\<close> is \<open>T_col\<close> and the label
  \<^verbatim>\<open>'y with h=' + str(h)\<close> is \<open>Y_col h\<close>.
\<close>

datatype label = T_col | Y_col real

record dataframe =
  nrows :: nat
  columns :: "(label \<times> real option list) list"

definition empty_frame :: dataframe where
  "empty_frame = \<lparr>nrows = 0, columns = []\<rparr>"

text \<open>
  \<^verbatim>\<open>df[key] = value\<close> for a list or array \<open>value\<close>. A frame without rows takes its
  rows from a non-empty value (its earlier columns are filled with \<^verbatim>\<open>nan\<close>); otherwise
  a value of another length than the frame raises \<^verbatim>\<open>ValueError\<close>. An existing column is
  replaced where it stands, a new one is added last.
\<close>

definition set_item :: "label \<Rightarrow> real option list \<Rightarrow> dataframe \<Rightarrow> py_error + dataframe" where
  "set_item key val df =
     (if nrows df = 0 \<and> val \<noteq> []
      then Inr \<lparr>nrows = length val,
                columns = AList.update key val
                  (map (\<lambda>(k, c). (k, replicate (length val) None)) (columns df))\<rparr>
      else if length val \<noteq> nrows df then Inl ValueError
      else Inr (df\<lparr>columns := AList.update key val (columns df)\<rparr>))"

text \<open>\<^verbatim>\<open>df[key] = np.nan\<close>: the scalar fills a column of the frame's length.\<close>

definition set_item_nan :: "label \<Rightarrow> dataframe \<Rightarrow> dataframe" where
  "set_item_nan key df = df\<lparr>columns := AList.update key (replicate (nrows df) None) (columns df)\<rparr>"

definition get_column :: "dataframe \<Rightarrow> label \<Rightarrow> real option list option" where
  "get_column df key = map_of (columns df) key"

type_synonym solver =
  "(real \<Rightarrow> real \<Rightarrow> real) \<Rightarrow> real \<Rightarrow> real \<Rightarrow> real \<Rightarrow> real \<Rightarrow> real \<Rightarrow> py_error + trajectory"

subsection \<open>\<^verbatim>\<open>analyse_step_len\<close> of \<^verbatim>\<open>analysis.py\<close>\<close>

text \<open>
  The inner loop
  \<^verbatim>\<open>for j in range(0, len(y)): l[round(j * h[i] / space)] = y[j]\<close>,
  on the rest of \<open>y\<close> from index \<open>j\<close> on.
\<close>

fun place :: "real \<Rightarrow> real \<Rightarrow> real list \<Rightarrow> nat \<Rightarrow> real option list \<Rightarrow> py_error + real option list" where
  "place hi space [] j l = Inr l"
| "place hi space (v # vs) j l =
     (case list_setitem l (py_round (real j * hi / space)) (Some v) of
        Inl e \<Rightarrow> Inl e
      | Inr l' \<Rightarrow> place hi space vs (Suc j) l')"

text \<open>
  The loop \<^verbatim>\<open>for i in range(len(h))\<close> on the step sizes still to do. The solver's
  keyword parameters \<^verbatim>\<open>**params\<close> are part of \<open>method\<close>.
\<close>

fun step_len_columns ::
  "(real \<Rightarrow> real \<Rightarrow> real) \<Rightarrow> solver \<Rightarrow> real \<Rightarrow> real \<Rightarrow> real \<Rightarrow> real \<Rightarrow> real \<Rightarrow> real list
     \<Rightarrow> dataframe \<Rightarrow> py_error + dataframe" where
  "step_len_columns f method a b t0 y0 space [] df = Inr df"
| "step_len_columns f method a b t0 y0 space (hi # hs) df =
     (let df = set_item_nan (Y_col hi) df
      in case method f a b t0 y0 hi of
           Inl e \<Rightarrow> Inl e
         | Inr (t, y) \<Rightarrow>
             (case place hi space y 0 (replicate (nrows df) None) of
                Inl e \<Rightarrow> Inl e
              | Inr l \<Rightarrow>
                  (case set_item (Y_col hi) l df of
                     Inl e \<Rightarrow> Inl e
                   | Inr df \<Rightarrow> step_len_columns f method a b t0 y0 space hs df)))"

text \<open>
  \<^verbatim>\<open>(b - a) / space\<close> is the first division by \<open>space\<close>; it raises for \<open>space = 0\<close>, so
  the later divisions by \<open>space\<close> cannot.
\<close>

definition analyse_step_len ::
  "(real \<Rightarrow> real \<Rightarrow> real) \<Rightarrow> solver \<Rightarrow> real \<Rightarrow> real \<Rightarrow> real \<Rightarrow> real \<Rightarrow> real list
     \<Rightarrow> py_error + dataframe" where
  "analyse_step_len f method a b t0 y0 h =
     (let h = (if h = [] then [1 / 100, 5 / 1000, 1 / 1000] else h);
          space = last h
      in if space = 0 then Inl ZeroDivisionError
         else case linspace a b (py_round ((b - a) / space) + 1) of
                Inl e \<Rightarrow> Inl e
              | Inr axis \<Rightarrow>
                  (case set_item T_col (map Some axis) empty_frame of
                     Inl e \<Rightarrow> Inl e
                   | Inr df \<Rightarrow> step_len_columns f method a b t0 y0 space h df))"

subsection \<open>\<^verbatim>\<open>analyse_step_len\<close> of \<^verbatim>\<open>euler.py\<close>\<close>

text \<open>
  The same harness as \<^verbatim>\<open>euler.py\<close> has it: the reference resolution is \<^verbatim>\<open>h[0]\<close>, and a
  column is the sub-sampled trajectory
  \<^verbatim>\<open>[y[j] for j in range(0, len(y), round(space / h[i]))]\<close>.
\<close>

fun step_len_columns_euler ::
  "(real \<Rightarrow> real \<Rightarrow> real) \<Rightarrow> solver \<Rightarrow> real \<Rightarrow> real \<Rightarrow> real \<Rightarrow> real \<Rightarrow> real \<Rightarrow> real list
     \<Rightarrow> dataframe \<Rightarrow> py_error + dataframe" where
  "step_len_columns_euler f method a b t0 y0 space [] df = Inr df"
| "step_len_columns_euler f method a b t0 y0 space (hi # hs) df =
     (case method f a b t0 y0 hi of
        Inl e \<Rightarrow> Inl e
      | Inr (t, y) \<Rightarrow>
          if hi = 0 then Inl ZeroDivisionError
          else (case range_step (length y) (py_round (space / hi)) of
                  Inl e \<Rightarrow> Inl e
                | Inr js \<Rightarrow>
                    (case set_item (Y_col hi) (map (\<lambda>j. Some (y ! j)) js) df of
                       Inl e \<Rightarrow> Inl e
                     | Inr df \<Rightarrow> step_len_columns_euler f method a b t0 y0 space hs df)))"

definition analyse_step_len_euler ::
  "(real \<Rightarrow> real \<Rightarrow> real) \<Rightarrow> solver \<Rightarrow> real \<Rightarrow> real \<Rightarrow> real \<Rightarrow> real \<Rightarrow> real list
     \<Rightarrow> py_error + dataframe" where
  "analyse_step_len_euler f method a b t0 y0 h =
     (let h = (if h = [] then [1 / 100, 5 / 1000, 1 / 1000] else h);
          space = hd h
      in if space = 0 then Inl ZeroDivisionError
         else case linspace a b (py_round ((b - a) / space) + 1) of
                Inl e \<Rightarrow> Inl e
              | Inr axis \<Rightarrow>
                  (case set_item T_col (map Some axis) empty_frame of
                     Inl e \<Rightarrow> Inl e
                   | Inr df \<Rightarrow> step_len_columns_euler f method a b t0 y0 space h df))"

subsection \<open>\<^verbatim>\<open>analyse_time\<close>\<close>

text \<open>
  The repetition loop keeps nothing of a call's result; a call that raises ends it. The
  two clock readings \<^verbatim>\<open>time.time() * 1000\<close> are inputs of the model.
\<close>

fun repeat_calls :: "nat \<Rightarrow> py_error + trajectory \<Rightarrow> py_error + unit" where
  "repeat_calls 0 call = Inr ()"
| "repeat_calls (Suc n) call = (case call of Inl e \<Rightarrow> Inl e | Inr r \<Rightarrow> repeat_calls n call)"

definition analyse_time ::
  "(real \<Rightarrow> real \<Rightarrow> real) \<Rightarrow> solver \<Rightarrow> real \<Rightarrow> real \<Rightarrow> real \<Rightarrow> real \<Rightarrow> real \<Rightarrow> int \<Rightarrow> real \<Rightarrow> real
     \<Rightarrow> py_error + real" where
  "analyse_time f method a b t0 y0 h epochs t_start t_end =
     (if \<not> epochs > 0 then Inl AssertionError
      else case repeat_calls (nat epochs) (method f a b t0 y0 h) of
             Inl e \<Rightarrow> Inl e
           | Inr u \<Rightarrow> Inr ((t_end - t_start) / of_int epochs))"

section \<open>The shared shape of the solvers\<close>

text \<open>
  The four solver bodies are one driver around two per-step update rules, a backward and
  a forward one, each giving the next \<open>y\<close> from the current \<open>(ti, yi)\<close>. The driver and
  the eight rules below are read off the solver definitions above and proved equal to
  them, solver by solver, before anything else is proved.
\<close>

definition back_body :: "(real \<Rightarrow> real \<Rightarrow> real) \<Rightarrow> real \<Rightarrow> loop_state \<Rightarrow> loop_state" where
  "back_body upd h = (\<lambda>(ti, yi, t_temp, y_temp).
     (ti - h, upd ti yi, t_temp @ [ti - h], y_temp @ [upd ti yi]))"

definition fwd_body :: "(real \<Rightarrow> real \<Rightarrow> real) \<Rightarrow> real \<Rightarrow> loop_state \<Rightarrow> loop_state" where
  "fwd_body upd h = (\<lambda>(ti, yi, t_list, y_list).
     (ti + h, upd ti yi, t_list @ [ti + h], y_list @ [upd ti yi]))"

definition bidirectional ::
  "(real \<Rightarrow> real \<Rightarrow> real) \<Rightarrow> (real \<Rightarrow> real \<Rightarrow> real) \<Rightarrow> real \<Rightarrow> real \<Rightarrow> real \<Rightarrow> real \<Rightarrow> real
     \<Rightarrow> py_error + trajectory" where
  "bidirectional upd_back upd_fwd a b t0 y0 h =
     (if \<not> (a \<le> t0 \<and> t0 \<le> b) then Inl AssertionError
      else if h = 0 then Inl ZeroDivisionError
      else
        let (ti, yi, t_temp, y_temp) =
              for_range (py_round ((t0 - a) / h)) (back_body upd_back h) (t0, y0, [], []);
            (t_list, y_list) =
              (if t_temp \<noteq> [] \<and> y_temp \<noteq> [] then (rev t_temp, rev y_temp) else ([], []));
            (ti, yi, t_list, y_list) =
              for_range (py_round ((b - t0) / h)) (fwd_body upd_fwd h)
                (t0, y0, t_list @ [t0], y_list @ [y0])
        in Inr (t_list, y_list))"

definition explicit_back :: "(real \<Rightarrow> real \<Rightarrow> real) \<Rightarrow> real \<Rightarrow> real \<Rightarrow> real \<Rightarrow> real" where
  "explicit_back f h ti yi = yi - h * f ti yi"

definition explicit_fwd :: "(real \<Rightarrow> real \<Rightarrow> real) \<Rightarrow> real \<Rightarrow> real \<Rightarrow> real \<Rightarrow> real" where
  "explicit_fwd f h ti yi = yi + h * f ti yi"

definition implicit_back ::
  "(real \<Rightarrow> real \<Rightarrow> real) \<Rightarrow> real \<Rightarrow> real \<Rightarrow> int \<Rightarrow> real \<Rightarrow> real \<Rightarrow> real" where
  "implicit_back f h threshold epochs ti yi =
     fst (fixed_point_loop (\<lambda>y'. yi - h * f (ti - h) y') threshold epochs 0 (yi - h * f ti yi))"

definition implicit_fwd ::
  "(real \<Rightarrow> real \<Rightarrow> real) \<Rightarrow> real \<Rightarrow> real \<Rightarrow> int \<Rightarrow> real \<Rightarrow> real \<Rightarrow> real" where
  "implicit_fwd f h threshold epochs ti yi =
     fst (fixed_point_loop (\<lambda>y'. yi + h * f (ti + h) y') threshold epochs 0 (yi + h * f ti yi))"

definition trapezium_back ::
  "(real \<Rightarrow> real \<Rightarrow> real) \<Rightarrow> real \<Rightarrow> real \<Rightarrow> int \<Rightarrow> real \<Rightarrow> real \<Rightarrow> real" where
  "trapezium_back f h threshold epochs ti yi =
     fst (fixed_point_loop (\<lambda>y'. yi - (1 / 2) * h * (f ti yi + f (ti - h) y'))
            threshold epochs 0 (yi - h * f ti yi))"

definition trapezium_fwd ::
  "(real \<Rightarrow> real \<Rightarrow> real) \<Rightarrow> real \<Rightarrow> real \<Rightarrow> int \<Rightarrow> real \<Rightarrow> real \<Rightarrow> real" where
  "trapezium_fwd f h threshold epochs ti yi =
     fst (fixed_point_loop (\<lambda>y'. yi + (1 / 2) * h * (f ti yi + f (ti + h) y'))
            threshold epochs 0 (yi + h * f ti yi))"

definition improved_back :: "(real \<Rightarrow> real \<Rightarrow> real) \<Rightarrow> real \<Rightarrow> real \<Rightarrow> real \<Rightarrow> real" where
  "improved_back f h ti yi = yi - (1 / 2) * h * (f ti yi + f (ti - h) (yi - h * f ti yi))"

definition improved_fwd :: "(real \<Rightarrow> real \<Rightarrow> real) \<Rightarrow> real \<Rightarrow> real \<Rightarrow> real \<Rightarrow> real" where
  "improved_fwd f h ti yi = yi + (1 / 2) * h * (f ti yi + f (ti + h) (yi + h * f ti yi))"

text \<open>
  The solvers as the harnesses receive them: the implicit ones with their keyword
  parameters \<^verbatim>\<open>threshold\<close> and \<^verbatim>\<open>epochs\<close> fixed.
\<close>

inductive_set solvers :: "solver set" where
  explicit: "euler_explicit \<in> solvers"
| implicit: "(\<lambda>f a b t0 y0 h. euler_implicit f a b t0 y0 h threshold epochs) \<in> solvers"
| trapezium: "(\<lambda>f a b t0 y0 h. euler_trapezium f a b t0 y0 h threshold epochs) \<in> solvers"
| improved: "euler_improved \<in> solvers"

section \<open>The stepping protocol as the specification words it\<close>

text \<open>
  One step of a pass on a sample \<open>(t, y)\<close>: the backward pass moves \<open>t\<close> by \<open>- h\<close>, the
  forward pass by \<open>+ h\<close>, and the update rule gives the new \<open>y\<close>.
\<close>

definition backward_step :: "(real \<Rightarrow> real \<Rightarrow> real) \<Rightarrow> real \<Rightarrow> real \<times> real \<Rightarrow> real \<times> real" where
  "backward_step upd h = (\<lambda>(ti, yi). (ti - h, upd ti yi))"

definition forward_step :: "(real \<Rightarrow> real \<Rightarrow> real) \<Rightarrow> real \<Rightarrow> real \<times> real \<Rightarrow> real \<times> real" where
  "forward_step upd h = (\<lambda>(ti, yi). (ti + h, upd ti yi))"

text \<open>
  The protocol of the specification, on samples: \<open>round((t0 - a)/h)\<close> backward steps from
  \<open>(t0, y0)\<close> go into a buffer, the reversed buffer comes first, then \<open>(t0, y0)\<close>, then
  \<open>round((b - t0)/h)\<close> forward steps, again from \<open>(t0, y0)\<close>.
\<close>

definition backward_count :: "real \<Rightarrow> real \<Rightarrow> real \<Rightarrow> nat" where
  "backward_count a t0 h = nat (py_round ((t0 - a) / h))"

definition forward_count :: "real \<Rightarrow> real \<Rightarrow> real \<Rightarrow> nat" where
  "forward_count b t0 h = nat (py_round ((b - t0) / h))"

definition stepping_protocol ::
  "(real \<times> real \<Rightarrow> real \<times> real) \<Rightarrow> (real \<times> real \<Rightarrow> real \<times> real) \<Rightarrow> real \<Rightarrow> real \<Rightarrow> real \<Rightarrow> real
     \<Rightarrow> real \<Rightarrow> (real \<times> real) list" where
  "stepping_protocol back fwd a b t0 y0 h =
     (let buffer = map (\<lambda>k. (back ^^ k) (t0, y0)) [1..<Suc (backward_count a t0 h)]
      in rev buffer @ [(t0, y0)] @
         map (\<lambda>k. (fwd ^^ k) (t0, y0)) [1..<Suc (forward_count b t0 h)])"

text \<open>A list of samples as the pair of lists a solver returns.\<close>

definition unzip :: "('a \<times> 'b) list \<Rightarrow> 'a list \<times> 'b list" where
  "unzip ps = (map fst ps, map snd ps)"

section \<open>What a fixed-point iteration accepts\<close>

text \<open>
  The iterates of an update \<open>upd\<close> from a seed are \<open>(upd ^^ n) seed\<close>. The \<open>n\<close>-th pass
  of the loop (\<open>n \<ge> 1\<close>) computes \<open>(upd ^^ n) seed\<close> from \<open>(upd ^^ (n - 1)) seed\<close> and
  stops when the two are closer than the threshold or \<open>n\<close> exceeds the epoch cap.
  A value is accepted when it is the iterate that the first stopping pass started from.
\<close>

definition stops :: "(real \<Rightarrow> real) \<Rightarrow> real \<Rightarrow> int \<Rightarrow> real \<Rightarrow> nat \<Rightarrow> bool" where
  "stops upd threshold epochs seed n \<longleftrightarrow>
     \<bar>(upd ^^ n) seed - (upd ^^ (n - 1)) seed\<bar> < threshold \<or> int n > epochs"

definition accepted :: "(real \<Rightarrow> real) \<Rightarrow> real \<Rightarrow> int \<Rightarrow> real \<Rightarrow> real \<Rightarrow> bool" where
  "accepted upd threshold epochs seed v \<longleftrightarrow>
     (\<exists>n\<ge>1. stops upd threshold epochs seed n \<and>
        (\<forall>m. 1 \<le> m \<and> m < n \<longrightarrow> \<not> stops upd threshold epochs seed m) \<and>
        v = (upd ^^ (n - 1)) seed)"

section \<open>Where the harness places a trajectory\<close>

text \<open>An index that Python accepts for a list of \<open>n\<close> elements.\<close>

definition index_in_table :: "nat \<Rightarrow> int \<Rightarrow> bool" where
  "index_in_table n i \<longleftrightarrow> - int n \<le> i \<and> i < int n"

text \<open>
  A column of \<open>n\<close> rows that holds the \<open>j\<close>-th value of \<open>ys\<close> at row \<open>j * k\<close> and no value
  anywhere else: the trajectory \<open>ys\<close> of a step size \<open>k\<close> times the reference resolution,
  aligned on a grid of the reference resolution.
\<close>

definition spread :: "nat \<Rightarrow> nat \<Rightarrow> real list \<Rightarrow> real option list" where
  "spread n k ys =
     map (\<lambda>i. if k dvd i \<and> i div k < length ys then Some (ys ! (i div k)) else None) [0..<n]"

section \<open>The solvers in rounded arithmetic\<close>

text \<open>
  Above, every \<open>+\<close>, \<open>-\<close>, \<open>*\<close> and \<open>/\<close> of the source is the exact operation on reals.
  The source computes in IEEE 754 doubles, where each of these operations returns the
  exact result rounded to a double. For the statements that depend on how \<^verbatim>\<open>ti + h\<close> and
  \<^verbatim>\<open>ti - h\<close> are rounded (the order of the returned times, their distance from \<open>a\<close> and
  \<open>b\<close>, the selection of samples by comparing times), the solvers are embedded a second
  time with a rounding function \<open>rd\<close> applied to the result of every arithmetic
  operation, in the order Python evaluates them. With the identity for \<open>rd\<close> these are
  the definitions above; with \<open>round_double\<close> for \<open>rd\<close> they compute what the source
  computes on doubles, as long as no operation overflows.
\<close>


text \<open>
  The fixed-point loop with the difference \<^verbatim>\<open>y__ - y_\<close> rounded; the update \<open>upd\<close> carries
  its own roundings.
\<close>

function fixed_point_loop_rounded ::
  "(real \<Rightarrow> real) \<Rightarrow> (real \<Rightarrow> real) \<Rightarrow> real \<Rightarrow> int \<Rightarrow> int \<Rightarrow> real \<Rightarrow> real \<times> real \<times> int" where
  "fixed_point_loop_rounded rd upd threshold epochs epoch y' =
     (if \<bar>rd (upd y' - y')\<bar> < threshold \<or> epoch + 1 > epochs
      then (y', upd y', epoch + 1)
      else fixed_point_loop_rounded rd upd threshold epochs (epoch + 1) (upd y'))"
  by pat_completeness auto
termination
  by (relation "measure (\<lambda>(rd, upd, threshold, epochs, epoch, y'). nat (epochs - epoch))") auto

declare fixed_point_loop_rounded.simps [simp del]

definition euler_explicit_rounded ::
  "(real \<Rightarrow> real) \<Rightarrow> (real \<Rightarrow> real \<Rightarrow> real) \<Rightarrow> real \<Rightarrow> real \<Rightarrow> real \<Rightarrow> real \<Rightarrow> real
     \<Rightarrow> py_error + trajectory" where
  "euler_explicit_rounded rd f a b t0 y0 h =
     (if \<not> (a \<le> t0 \<and> t0 \<le> b) then Inl AssertionError
      else if h = 0 then Inl ZeroDivisionError
      else
        let (ti, yi, t_temp, y_temp) =
              for_range (py_round (rd (rd (t0 - a) / h)))
                (\<lambda>(ti, yi, t_temp, y_temp).
                   let y' = rd (yi - rd (h * f ti yi))
                   in (rd (ti - h), y', t_temp @ [rd (ti - h)], y_temp @ [y']))
                (t0, y0, [], []);
            (t_list, y_list) =
              (if t_temp \<noteq> [] \<and> y_temp \<noteq> [] then (rev t_temp, rev y_temp) else ([], []));
            (ti, yi, t_list, y_list) =
              for_range (py_round (rd (rd (b - t0) / h)))
                (\<lambda>(ti, yi, t_list, y_list).
                   let y' = rd (yi + rd (h * f ti yi))
                   in (rd (ti + h), y', t_list @ [rd (ti + h)], y_list @ [y']))
                (t0, y0, t_list @ [t0], y_list @ [y0])
        in Inr (t_list, y_list))"

definition euler_implicit_rounded ::
  "(real \<Rightarrow> real) \<Rightarrow> (real \<Rightarrow> real \<Rightarrow> real) \<Rightarrow> real \<Rightarrow> real \<Rightarrow> real \<Rightarrow> real \<Rightarrow> real \<Rightarrow> real
     \<Rightarrow> int \<Rightarrow> py_error + trajectory" where
  "euler_implicit_rounded rd f a b t0 y0 h threshold epochs =
     (if \<not> (a \<le> t0 \<and> t0 \<le> b) then Inl AssertionError
      else if h = 0 then Inl ZeroDivisionError
      else
        let (ti, yi, t_temp, y_temp) =
              for_range (py_round (rd (rd (t0 - a) / h)))
                (\<lambda>(ti, yi, t_temp, y_temp).
                   let y' = rd (yi - rd (h * f ti yi));
                       (y', y'', epoch) =
                         fixed_point_loop_rounded rd
                           (\<lambda>y'. rd (yi - rd (h * f (rd (ti - h)) y'))) threshold epochs 0 y'
                   in (rd (ti - h), y', t_temp @ [rd (ti - h)], y_temp @ [y']))
                (t0, y0, [], []);
            (t_list, y_list) =
              (if t_temp \<noteq> [] \<and> y_temp \<noteq> [] then (rev t_temp, rev y_temp) else ([], []));
            (ti, yi, t_list, y_list) =
              for_range (py_round (rd (rd (b - t0) / h)))
                (\<lambda>(ti, yi, t_list, y_list).
                   let y' = rd (yi + rd (h * f ti yi));
                       (y', y'', epoch) =
                         fixed_point_loop_rounded rd
                           (\<lambda>y'. rd (yi + rd (h * f (rd (ti + h)) y'))) threshold epochs 0 y'
                   in (rd (ti + h), y', t_list @ [rd (ti + h)], y_list @ [y']))
                (t0, y0, t_list @ [t0], y_list @ [y0])
        in Inr (t_list, y_list))"

definition euler_trapezium_rounded ::
  "(real \<Rightarrow> real) \<Rightarrow> (real \<Rightarrow> real \<Rightarrow> real) \<Rightarrow> real \<Rightarrow> real \<Rightarrow> real \<Rightarrow> real \<Rightarrow> real \<Rightarrow> real
     \<Rightarrow> int \<Rightarrow> py_error + trajectory" where
  "euler_trapezium_rounded rd f a b t0 y0 h threshold epochs =
     (if \<not> (a \<le> t0 \<and> t0 \<le> b) then Inl AssertionError
      else if h = 0 then Inl ZeroDivisionError
      else
        let (ti, yi, t_temp, y_temp) =
              for_range (py_round (rd (rd (t0 - a) / h)))
                (\<lambda>(ti, yi, t_temp, y_temp).
                   let y' = rd (yi - rd (h * f ti yi));
                       (y', y'', epoch) =
                         fixed_point_loop_rounded rd
                           (\<lambda>y'. rd (yi - rd (rd ((1 / 2) * h) *
                                                rd (f ti yi + f (rd (ti - h)) y'))))
                           threshold epochs 0 y'
                   in (rd (ti - h), y', t_temp @ [rd (ti - h)], y_temp @ [y']))
                (t0, y0, [], []);
            (t_list, y_list) =
              (if t_temp \<noteq> [] \<and> y_temp \<noteq> [] then (rev t_temp, rev y_temp) else ([], []));
            (ti, yi, t_list, y_list) =
              for_range (py_round (rd (rd (b - t0) / h)))
                (\<lambda>(ti, yi, t_list, y_list).
                   let y' = rd (yi + rd (h * f ti yi));
                       (y', y'', epoch) =
                         fixed_point_loop_rounded rd
                           (\<lambda>y'. rd (yi + rd (rd ((1 / 2) * h) *
                                                rd (f ti yi + f (rd (ti + h)) y'))))
                           threshold epochs 0 y'
                   in (rd (ti + h), y', t_list @ [rd (ti + h)], y_list @ [y']))
                (t0, y0, t_list @ [t0], y_list @ [y0])
        in Inr (t_list, y_list))"

definition euler_improved_rounded ::
  "(real \<Rightarrow> real) \<Rightarrow> (real \<Rightarrow> real \<Rightarrow> real) \<Rightarrow> real \<Rightarrow> real \<Rightarrow> real \<Rightarrow> real \<Rightarrow> real
     \<Rightarrow> py_error + trajectory" where
  "euler_improved_rounded rd f a b t0 y0 h =
     (if \<not> (a \<le> t0 \<and> t0 \<le> b) then Inl AssertionError
      else if h = 0 then Inl ZeroDivisionError
      else
        let (ti, yi, t_temp, y_temp) =
              for_range (py_round (rd (rd (t0 - a) / h)))
                (\<lambda>(ti, yi, t_temp, y_temp).
                   let y' = rd (yi - rd (h * f ti yi));
                       y' = rd (yi - rd (rd ((1 / 2) * h) * rd (f ti yi + f (rd (ti - h)) y')))
                   in (rd (ti - h), y', t_temp @ [rd (ti - h)], y_temp @ [y']))
                (t0, y0, [], []);
            (t_list, y_list) =
              (if t_temp \<noteq> [] \<and> y_temp \<noteq> [] then (rev t_temp, rev y_temp) else ([], []));
            (ti, yi, t_list, y_list) =
              for_range (py_round (rd (rd (b - t0) / h)))
                (\<lambda>(ti, yi, t_list, y_list).
                   let y' = rd (yi + rd (h * f ti yi));
                       y' = rd (yi + rd (rd ((1 / 2) * h) * rd (f ti yi + f (rd (ti + h)) y')))
                   in (rd (ti + h), y', t_list @ [rd (ti + h)], y_list @ [y']))
                (t0, y0, t_list @ [t0], y_list @ [y0])
        in Inr (t_list, y_list))"







section \<open>Rounding\<close>

lemma py_round_of_int: "py_round (of_int n) = n"
  by (simp add: py_round_def)

lemma py_round_of_nat: "py_round (real n) = int n"
  using py_round_of_int [of "int n"] by simp

lemma py_round_zero: "py_round 0 = 0"
  by (simp add: py_round_def)


lemma py_round_nonneg: "0 \<le> x \<Longrightarrow> 0 \<le> py_round x"
  unfolding py_round_def Let_def by auto

lemma py_round_nonpos: "x \<le> 0 \<Longrightarrow> py_round x \<le> 0"
  unfolding py_round_def Let_def by auto

section \<open>The solvers are instances of the driver\<close>

lemma euler_explicit_bidirectional:
  "euler_explicit f a b t0 y0 h = bidirectional (explicit_back f h) (explicit_fwd f h) a b t0 y0 h"
  unfolding euler_explicit_def bidirectional_def back_body_def fwd_body_def
    explicit_back_def explicit_fwd_def
  by (simp add: Let_def split_def)

lemma euler_implicit_bidirectional:
  "euler_implicit f a b t0 y0 h threshold epochs =
     bidirectional (implicit_back f h threshold epochs) (implicit_fwd f h threshold epochs)
       a b t0 y0 h"
  unfolding euler_implicit_def bidirectional_def back_body_def fwd_body_def
    implicit_back_def implicit_fwd_def
  by (simp add: Let_def split_def)

lemma euler_trapezium_bidirectional:
  "euler_trapezium f a b t0 y0 h threshold epochs =
     bidirectional (trapezium_back f h threshold epochs) (trapezium_fwd f h threshold epochs)
       a b t0 y0 h"
  unfolding euler_trapezium_def bidirectional_def back_body_def fwd_body_def
    trapezium_back_def trapezium_fwd_def
  by (simp add: Let_def split_def)

lemma euler_improved_bidirectional:
  "euler_improved f a b t0 y0 h = bidirectional (improved_back f h) (improved_fwd f h) a b t0 y0 h"
  unfolding euler_improved_def bidirectional_def back_body_def fwd_body_def
    improved_back_def improved_fwd_def
  by (simp add: Let_def split_def)

section \<open>The driver follows the stepping protocol\<close>

lemma upt_1_Suc_Suc: "[1..<Suc (Suc n)] = [1..<Suc n] @ [Suc n]"
  by simp

lemma back_body_funpow:
  "(back_body upd h ^^ n) (t, y, ts, ys) =
     (fst ((backward_step upd h ^^ n) (t, y)), snd ((backward_step upd h ^^ n) (t, y)),
      ts @ map (\<lambda>k. fst ((backward_step upd h ^^ k) (t, y))) [1..<Suc n],
      ys @ map (\<lambda>k. snd ((backward_step upd h ^^ k) (t, y))) [1..<Suc n])"
proof (induction n)
  case 0
  show ?case by simp
next
  case (Suc n)
  show ?case
    unfolding funpow.simps o_apply Suc upt_1_Suc_Suc
    by (simp add: back_body_def backward_step_def split_def)
qed

lemma fwd_body_funpow:
  "(fwd_body upd h ^^ n) (t, y, ts, ys) =
     (fst ((forward_step upd h ^^ n) (t, y)), snd ((forward_step upd h ^^ n) (t, y)),
      ts @ map (\<lambda>k. fst ((forward_step upd h ^^ k) (t, y))) [1..<Suc n],
      ys @ map (\<lambda>k. snd ((forward_step upd h ^^ k) (t, y))) [1..<Suc n])"
proof (induction n)
  case 0
  show ?case by simp
next
  case (Suc n)
  show ?case
    unfolding funpow.simps o_apply Suc upt_1_Suc_Suc
    by (simp add: fwd_body_def forward_step_def split_def)
qed

lemma bidirectional_protocol:
  assumes "a \<le> t0" "t0 \<le> b" "h \<noteq> 0"
  shows "bidirectional ub uf a b t0 y0 h =
           Inr (unzip (stepping_protocol (backward_step ub h) (forward_step uf h) a b t0 y0 h))"
  using assms
  unfolding bidirectional_def stepping_protocol_def for_range_def backward_count_def
    forward_count_def back_body_funpow fwd_body_funpow Let_def unzip_def
  by (simp add: rev_map o_def del: upt_Suc)

section \<open>Indexing the protocol's samples\<close>

lemma length_stepping_protocol:
  "length (stepping_protocol back fwd a b t0 y0 h) =
     backward_count a t0 h + 1 + forward_count b t0 h"
  by (simp add: stepping_protocol_def Let_def del: upt_Suc)

lemma nth_map_upt_1: "k < n \<Longrightarrow> map g [1..<Suc n] ! k = g (Suc k)"
  using nth_map_upt [of k "Suc n" 1 g] by simp

lemma stepping_protocol_nth_back:
  assumes "k \<le> backward_count a t0 h"
  shows "stepping_protocol back fwd a b t0 y0 h ! (backward_count a t0 h - k) = (back ^^ k) (t0, y0)"
proof (cases k)
  case 0
  then show ?thesis
    by (simp add: stepping_protocol_def Let_def nth_append del: upt_Suc)
next
  case (Suc k')
  let ?n = "backward_count a t0 h"
  let ?buf = "map (\<lambda>k. (back ^^ k) (t0, y0)) [1..<Suc ?n]"
  have len: "length ?buf = ?n" by (simp del: upt_Suc)
  have lt: "?n - k < ?n" using assms Suc by simp
  have "stepping_protocol back fwd a b t0 y0 h ! (?n - k) = rev ?buf ! (?n - k)"
    using lt len by (simp add: stepping_protocol_def Let_def nth_append del: upt_Suc)
  also have "\<dots> = ?buf ! (?n - Suc (?n - k))"
    using lt len by (simp add: rev_nth del: upt_Suc)
  also have "?n - Suc (?n - k) = k'" using assms Suc by simp
  also have "?buf ! k' = (back ^^ k) (t0, y0)"
    using assms Suc nth_map_upt_1 [of k' ?n "\<lambda>k. (back ^^ k) (t0, y0)"] by simp
  finally show ?thesis .
qed

lemma stepping_protocol_nth_fwd:
  assumes "k \<le> forward_count b t0 h"
  shows "stepping_protocol back fwd a b t0 y0 h ! (backward_count a t0 h + k) = (fwd ^^ k) (t0, y0)"
proof (cases k)
  case 0
  then show ?thesis
    by (simp add: stepping_protocol_def Let_def nth_append del: upt_Suc)
next
  case (Suc k')
  then show ?thesis
    using assms nth_map_upt_1 [of k' "forward_count b t0 h" "\<lambda>k. (fwd ^^ k) (t0, y0)"]
    by (simp add: stepping_protocol_def Let_def nth_append del: upt_Suc)
qed

lemma backward_step_time: "fst ((backward_step upd h ^^ k) (t, y)) = t - real k * h"
  by (induction k) (simp_all add: backward_step_def split_def algebra_simps)

lemma forward_step_time: "fst ((forward_step upd h ^^ k) (t, y)) = t + real k * h"
  by (induction k) (simp_all add: forward_step_def split_def algebra_simps)

lemma stepping_protocol_time:
  assumes "j < length (stepping_protocol (backward_step ub h) (forward_step uf h) a b t0 y0 h)"
  shows "fst (stepping_protocol (backward_step ub h) (forward_step uf h) a b t0 y0 h ! j) =
           t0 + (real j - real (backward_count a t0 h)) * h"
proof (cases "j \<le> backward_count a t0 h")
  case True
  define k where "k = backward_count a t0 h - j"
  have k: "k \<le> backward_count a t0 h" "j = backward_count a t0 h - k"
    using True by (simp_all add: k_def)
  have r: "real j = real (backward_count a t0 h) - real k"
    using True by (simp add: k_def)
  have "fst (stepping_protocol (backward_step ub h) (forward_step uf h) a b t0 y0 h ! j) =
          t0 - real k * h"
    using stepping_protocol_nth_back [OF k(1), of "backward_step ub h" "forward_step uf h" b y0]
      k(2) by (simp add: backward_step_time)
  then show ?thesis
    unfolding r by (simp add: algebra_simps)
next
  case False
  define k where "k = j - backward_count a t0 h"
  have k: "k \<le> forward_count b t0 h" "j = backward_count a t0 h + k"
    using False assms unfolding length_stepping_protocol by (simp_all add: k_def)
  have r: "real j = real (backward_count a t0 h) + real k"
    using k(2) by simp
  have "fst (stepping_protocol (backward_step ub h) (forward_step uf h) a b t0 y0 h ! j) =
          t0 + real k * h"
    using stepping_protocol_nth_fwd [OF k(1), of "backward_step ub h" "forward_step uf h" a y0]
      k(2) by (simp add: forward_step_time)
  then show ?thesis
    unfolding r by (simp add: algebra_simps)
qed

section \<open>The time grid of a trajectory\<close>

lemma solvers_bidirectional:
  assumes "S \<in> solvers"
  obtains ub uf where
    "\<And>f a b t0 y0 h. S f a b t0 y0 h = bidirectional (ub f h) (uf f h) a b t0 y0 h"
  using assms
proof cases
  case explicit
  then show ?thesis using that [of explicit_back explicit_fwd]
    by (simp add: euler_explicit_bidirectional)
next
  case (implicit threshold epochs)
  then show ?thesis
    using that [of "\<lambda>f h. implicit_back f h threshold epochs" "\<lambda>f h. implicit_fwd f h threshold epochs"]
    by (simp add: euler_implicit_bidirectional)
next
  case (trapezium threshold epochs)
  then show ?thesis
    using that [of "\<lambda>f h. trapezium_back f h threshold epochs" "\<lambda>f h. trapezium_fwd f h threshold epochs"]
    by (simp add: euler_trapezium_bidirectional)
next
  case improved
  then show ?thesis using that [of improved_back improved_fwd]
    by (simp add: euler_improved_bidirectional)
qed







lemma backward_count_self: "backward_count t0 t0 h = 0"
  by (simp add: backward_count_def py_round_zero)

lemma backward_count_negative_step:
  assumes "a \<le> t0" "h < 0"
  shows "backward_count a t0 h = 0"
proof -
  have "(t0 - a) / h \<le> 0" using assms by (simp add: divide_nonneg_neg)
  then have "py_round ((t0 - a) / h) \<le> 0" by (rule py_round_nonpos)
  then show ?thesis by (simp add: backward_count_def)
qed

lemma forward_count_negative_step:
  assumes "t0 \<le> b" "h < 0"
  shows "forward_count b t0 h = 0"
proof -
  have "(b - t0) / h \<le> 0" using assms by (simp add: divide_nonneg_neg)
  then have "py_round ((b - t0) / h) \<le> 0" by (rule py_round_nonpos)
  then show ?thesis by (simp add: forward_count_def)
qed

section \<open>Constant derivatives\<close>

lemma fixed_point_loop_at_fixed_point:
  "upd y = y \<Longrightarrow> fst (fixed_point_loop upd threshold epochs epoch y) = y"
proof (induction upd threshold epochs epoch y rule: fixed_point_loop.induct)
  case (1 upd threshold epochs epoch y)
  show ?case
  proof (cases "\<bar>upd y - y\<bar> < threshold \<or> epoch + 1 > epochs")
    case True
    then show ?thesis by (subst fixed_point_loop.simps) simp
  next
    case False
    then have "fst (fixed_point_loop upd threshold epochs (epoch + 1) (upd y)) = upd y"
      using "1.IH" "1.prems" by simp
    then show ?thesis
      using False "1.prems" by (subst fixed_point_loop.simps) simp
  qed
qed

lemma constant_rules:
  "explicit_back (\<lambda>t y. c) h ti yi = yi - h * c"
  "explicit_fwd (\<lambda>t y. c) h ti yi = yi + h * c"
  "implicit_back (\<lambda>t y. c) h threshold epochs ti yi = yi - h * c"
  "implicit_fwd (\<lambda>t y. c) h threshold epochs ti yi = yi + h * c"
  "trapezium_back (\<lambda>t y. c) h threshold epochs ti yi = yi - h * c"
  "trapezium_fwd (\<lambda>t y. c) h threshold epochs ti yi = yi + h * c"
  "improved_back (\<lambda>t y. c) h ti yi = yi - h * c"
  "improved_fwd (\<lambda>t y. c) h ti yi = yi + h * c"
  by (simp_all add: explicit_back_def explicit_fwd_def implicit_back_def implicit_fwd_def
      trapezium_back_def trapezium_fwd_def improved_back_def improved_fwd_def
      fixed_point_loop_at_fixed_point)

lemma on_line_backward:
  assumes "\<And>ti yi. ub ti yi = yi - h * c" "snd p = y0 + c * (fst p - t0)"
  shows "snd ((backward_step ub h ^^ k) p) = y0 + c * (fst ((backward_step ub h ^^ k) p) - t0)"
proof (induction k)
  case 0
  show ?case using assms(2) by simp
next
  case (Suc k)
  then show ?case
    by (simp add: backward_step_def split_def assms(1) algebra_simps)
qed

lemma on_line_forward:
  assumes "\<And>ti yi. uf ti yi = yi + h * c" "snd p = y0 + c * (fst p - t0)"
  shows "snd ((forward_step uf h ^^ k) p) = y0 + c * (fst ((forward_step uf h ^^ k) p) - t0)"
proof (induction k)
  case 0
  show ?case using assms(2) by simp
next
  case (Suc k)
  then show ?case
    by (simp add: forward_step_def split_def assms(1) algebra_simps)
qed

lemma protocol_on_line:
  assumes "\<And>ti yi. ub ti yi = yi - h * c" "\<And>ti yi. uf ti yi = yi + h * c"
  shows "map snd (stepping_protocol (backward_step ub h) (forward_step uf h) a b t0 y0 h) =
         map (\<lambda>t. y0 + c * (t - t0))
           (map fst (stepping_protocol (backward_step ub h) (forward_step uf h) a b t0 y0 h))"
  unfolding map_map o_def
proof (rule map_cong [OF refl])
  fix p
  assume "p \<in> set (stepping_protocol (backward_step ub h) (forward_step uf h) a b t0 y0 h)"
  then have "p \<in> (\<lambda>k. (backward_step ub h ^^ k) (t0, y0)) ` UNIV \<or> p = (t0, y0) \<or>
             p \<in> (\<lambda>k. (forward_step uf h ^^ k) (t0, y0)) ` UNIV"
    unfolding stepping_protocol_def Let_def set_append set_rev set_map by auto
  then consider k where "p = (backward_step ub h ^^ k) (t0, y0)"
    | "p = (t0, y0)" | k where "p = (forward_step uf h ^^ k) (t0, y0)"
    by blast
  then show "snd p = y0 + c * (fst p - t0)"
  proof cases
    case 1
    show ?thesis unfolding 1 by (rule on_line_backward [OF assms(1)]) simp
  next
    case 2
    then show ?thesis by simp
  next
    case 3
    show ?thesis unfolding 3 by (rule on_line_forward [OF assms(2)]) simp
  qed
qed

lemma bidirectional_constant:
  assumes "\<And>ti yi. ub ti yi = yi - h * c" "\<And>ti yi. uf ti yi = yi + h * c"
    and "a \<le> t0" "t0 \<le> b" "h \<noteq> 0"
  shows "\<exists>ts. bidirectional ub uf a b t0 y0 h = Inr (ts, map (\<lambda>t. y0 + c * (t - t0)) ts)"
  unfolding bidirectional_protocol [OF assms(3-5)] unzip_def
    protocol_on_line [of ub h c uf, OF assms(1,2)]
  by blast

section \<open>The fixed-point loop, pass by pass\<close>

lemma fixed_point_loop_trace:
  "\<exists>k\<ge>1. fixed_point_loop upd threshold epochs epoch y =
            ((upd ^^ (k - 1)) y, (upd ^^ k) y, epoch + int k) \<and>
          (\<bar>(upd ^^ k) y - (upd ^^ (k - 1)) y\<bar> < threshold \<or> epoch + int k > epochs) \<and>
          (\<forall>m. 1 \<le> m \<and> m < k \<longrightarrow>
             \<not> (\<bar>(upd ^^ m) y - (upd ^^ (m - 1)) y\<bar> < threshold \<or> epoch + int m > epochs))"
proof (induction upd threshold epochs epoch y rule: fixed_point_loop.induct)
  case (1 upd threshold epochs epoch y)
  show ?case
  proof (cases "\<bar>upd y - y\<bar> < threshold \<or> epoch + 1 > epochs")
    case True
    then have "fixed_point_loop upd threshold epochs epoch y = (y, upd y, epoch + 1)"
      by (subst fixed_point_loop.simps) simp
    with True show ?thesis
      by (intro exI [of _ 1]) simp
  next
    case False
    from "1.IH" [OF False] obtain k where k: "1 \<le> k"
      and res: "fixed_point_loop upd threshold epochs (epoch + 1) (upd y) =
            ((upd ^^ (k - 1)) (upd y), (upd ^^ k) (upd y), epoch + 1 + int k)"
      and stop: "\<bar>(upd ^^ k) (upd y) - (upd ^^ (k - 1)) (upd y)\<bar> < threshold \<or>
            epoch + 1 + int k > epochs"
      and before: "\<And>m. 1 \<le> m \<Longrightarrow> m < k \<Longrightarrow>
            \<not> (\<bar>(upd ^^ m) (upd y) - (upd ^^ (m - 1)) (upd y)\<bar> < threshold \<or>
               epoch + 1 + int m > epochs)"
      by blast
    have shift: "(upd ^^ j) (upd y) = (upd ^^ Suc j) y" for j
      by (simp add: funpow_swap1)
    have pred: "Suc (j - 1) = j" if "1 \<le> j" for j :: nat
      using that by simp
    have eq: "fixed_point_loop upd threshold epochs epoch y =
        fixed_point_loop upd threshold epochs (epoch + 1) (upd y)"
      using False by (subst fixed_point_loop.simps) simp
    have r: "fixed_point_loop upd threshold epochs epoch y =
        ((upd ^^ (Suc k - 1)) y, (upd ^^ Suc k) y, epoch + int (Suc k))"
      unfolding eq res shift using pred [OF k] by (simp add: add.assoc)
    have s: "\<bar>(upd ^^ Suc k) y - (upd ^^ (Suc k - 1)) y\<bar> < threshold \<or>
        epoch + int (Suc k) > epochs"
      using stop unfolding shift using pred [OF k] by (simp add: add.assoc)
    have b: "\<not> (\<bar>(upd ^^ m) y - (upd ^^ (m - 1)) y\<bar> < threshold \<or> epoch + int m > epochs)"
      if m: "1 \<le> m" "m < Suc k" for m
    proof (cases "m = 1")
      case True
      then show ?thesis using False by simp
    next
      case False
      then obtain m' where m': "m = Suc m'" "1 \<le> m'" "m' < k"
        using m by (cases m) auto
      from before [OF m'(2,3)] show ?thesis
        unfolding shift m'(1) using pred [OF m'(2)] by (simp add: add.assoc)
    qed
    show ?thesis
      using r s b by (intro exI [of _ "Suc k"]) simp
  qed
qed

lemma fixed_point_loop_accepted:
  "accepted upd threshold epochs seed (fst (fixed_point_loop upd threshold epochs 0 seed))"
proof -
  obtain k where "1 \<le> k"
    "fixed_point_loop upd threshold epochs 0 seed = ((upd ^^ (k - 1)) seed, (upd ^^ k) seed, 0 + int k)"
    "\<bar>(upd ^^ k) seed - (upd ^^ (k - 1)) seed\<bar> < threshold \<or> 0 + int k > epochs"
    "\<forall>m. 1 \<le> m \<and> m < k \<longrightarrow>
       \<not> (\<bar>(upd ^^ m) seed - (upd ^^ (m - 1)) seed\<bar> < threshold \<or> 0 + int m > epochs)"
    using fixed_point_loop_trace [of upd threshold epochs 0 seed] by blast
  then show ?thesis
    unfolding accepted_def stops_def by (intro exI [of _ k]) simp
qed

lemma fixed_point_loop_last_computed:
  "fst (snd (fixed_point_loop upd threshold epochs epoch y)) =
     upd (fst (fixed_point_loop upd threshold epochs epoch y))"
proof -
  obtain k where k: "1 \<le> k"
    "fixed_point_loop upd threshold epochs epoch y = ((upd ^^ (k - 1)) y, (upd ^^ k) y, epoch + int k)"
    using fixed_point_loop_trace [of upd threshold epochs epoch y] by blast
  have "(upd ^^ k) y = upd ((upd ^^ (k - 1)) y)"
    using k(1) by (cases k) simp_all
  then show ?thesis unfolding k(2) by simp
qed

lemma fixed_point_loop_epoch_bound:
  assumes "0 \<le> epochs"
  shows "1 \<le> snd (snd (fixed_point_loop upd threshold epochs 0 seed))
       \<and> snd (snd (fixed_point_loop upd threshold epochs 0 seed)) \<le> epochs + 1"
proof -
  obtain k where k: "1 \<le> k"
    "fixed_point_loop upd threshold epochs 0 seed = ((upd ^^ (k - 1)) seed, (upd ^^ k) seed, 0 + int k)"
    "\<forall>m. 1 \<le> m \<and> m < k \<longrightarrow>
       \<not> (\<bar>(upd ^^ m) seed - (upd ^^ (m - 1)) seed\<bar> < threshold \<or> 0 + int m > epochs)"
    using fixed_point_loop_trace [of upd threshold epochs 0 seed] by blast
  have "int k \<le> epochs + 1"
  proof (cases "k = 1")
    case True
    then show ?thesis using assms by simp
  next
    case False
    then have "1 \<le> k - 1" "k - 1 < k" using k(1) by simp_all
    with k(3) have "\<not> int (k - 1) > epochs" by auto
    then show ?thesis using k(1) by simp
  qed
  then show ?thesis unfolding k(2) using k(1) by simp
qed

section \<open>Consecutive samples of a trajectory\<close>

lemma protocol_forward_succ:
  assumes "backward_count a t0 h \<le> k" "Suc k < length (stepping_protocol back fwd a b t0 y0 h)"
  shows "stepping_protocol back fwd a b t0 y0 h ! Suc k = fwd (stepping_protocol back fwd a b t0 y0 h ! k)"
proof -
  define j where "j = k - backward_count a t0 h"
  have k: "k = backward_count a t0 h + j" "Suc k = backward_count a t0 h + Suc j"
    using assms(1) by (simp_all add: j_def)
  have j: "Suc j \<le> forward_count b t0 h" "j \<le> forward_count b t0 h"
    using assms(2) unfolding length_stepping_protocol k(1) by simp_all
  have "stepping_protocol back fwd a b t0 y0 h ! (backward_count a t0 h + Suc j) =
        fwd (stepping_protocol back fwd a b t0 y0 h ! (backward_count a t0 h + j))"
    unfolding stepping_protocol_nth_fwd [OF j(1)] stepping_protocol_nth_fwd [OF j(2)]
    by simp
  then show ?thesis using k by simp
qed

lemma protocol_backward_pred:
  assumes "k < backward_count a t0 h"
  shows "stepping_protocol back fwd a b t0 y0 h ! k = back (stepping_protocol back fwd a b t0 y0 h ! Suc k)"
proof -
  define j where "j = backward_count a t0 h - Suc k"
  have k: "k = backward_count a t0 h - Suc j" "Suc k = backward_count a t0 h - j"
    using assms by (simp_all add: j_def)
  have j: "Suc j \<le> backward_count a t0 h" "j \<le> backward_count a t0 h"
    using assms by (simp_all add: j_def)
  have "stepping_protocol back fwd a b t0 y0 h ! (backward_count a t0 h - Suc j) =
        back (stepping_protocol back fwd a b t0 y0 h ! (backward_count a t0 h - j))"
    unfolding stepping_protocol_nth_back [OF j(1)] stepping_protocol_nth_back [OF j(2)]
    by simp
  then show ?thesis using k by simp
qed

lemma bidirectional_consecutive:
  assumes "a \<le> t0" "t0 \<le> b" "h \<noteq> 0"
  shows "\<exists>ts ys. bidirectional ub uf a b t0 y0 h = Inr (ts, ys) \<and> length ts = length ys \<and>
           (\<forall>k. backward_count a t0 h \<le> k \<and> Suc k < length ys \<longrightarrow>
                ys ! Suc k = uf (ts ! k) (ys ! k)) \<and>
           (\<forall>k. k < backward_count a t0 h \<longrightarrow> ys ! k = ub (ts ! Suc k) (ys ! Suc k))"
proof -
  let ?tr = "stepping_protocol (backward_step ub h) (forward_step uf h) a b t0 y0 h"
  have len: "length ?tr = backward_count a t0 h + 1 + forward_count b t0 h"
    by (rule length_stepping_protocol)
  have f: "map snd ?tr ! Suc k = uf (map fst ?tr ! k) (map snd ?tr ! k)"
    if "backward_count a t0 h \<le> k" "Suc k < length (map snd ?tr)" for k
  proof -
    have lt: "Suc k < length ?tr" "k < length ?tr" using that(2) by simp_all
    have "?tr ! Suc k = forward_step uf h (?tr ! k)"
      using that(1) lt(1) by (rule protocol_forward_succ)
    then show ?thesis
      using lt by (simp add: forward_step_def split_def)
  qed
  have g: "map snd ?tr ! k = ub (map fst ?tr ! Suc k) (map snd ?tr ! Suc k)"
    if "k < backward_count a t0 h" for k
  proof -
    have lt: "Suc k < length ?tr" "k < length ?tr" using that len by simp_all
    have "?tr ! k = backward_step ub h (?tr ! Suc k)"
      using that by (rule protocol_backward_pred)
    then show ?thesis
      using lt by (simp add: backward_step_def split_def)
  qed
  have "bidirectional ub uf a b t0 y0 h = Inr (map fst ?tr, map snd ?tr)"
    unfolding bidirectional_protocol [OF assms] unzip_def ..
  moreover have "length (map fst ?tr) = length (map snd ?tr)" by simp
  ultimately show ?thesis using f g by blast
qed

section \<open>Failures and pass counts of the driver\<close>

lemma bidirectional_assertion:
  "\<not> (a \<le> t0 \<and> t0 \<le> b) \<Longrightarrow> bidirectional ub uf a b t0 y0 h = Inl AssertionError"
  by (simp add: bidirectional_def)

lemma bidirectional_zero_step:
  "a \<le> t0 \<Longrightarrow> t0 \<le> b \<Longrightarrow> bidirectional ub uf a b t0 y0 0 = Inl ZeroDivisionError"
  by (simp add: bidirectional_def)

lemma bidirectional_negative_step:
  assumes "a \<le> t0" "t0 \<le> b" "h < 0"
  shows "bidirectional ub uf a b t0 y0 h = Inr ([t0], [y0])"
proof -
  have h: "h \<noteq> 0" using assms(3) by simp
  show ?thesis
    unfolding bidirectional_protocol [OF assms(1,2) h] unzip_def stepping_protocol_def Let_def
      backward_count_negative_step [OF assms(1,3)] forward_count_negative_step [OF assms(2,3)]
    by simp
qed

lemma bidirectional_passes:
  assumes "a \<le> t0" "t0 \<le> b" "0 < h"
  shows "\<exists>buffer fwd. bidirectional ub uf a b t0 y0 h = Inr (unzip (rev buffer @ [(t0, y0)] @ fwd)) \<and>
           int (length buffer) = py_round ((t0 - a) / h) \<and>
           int (length fwd) = py_round ((b - t0) / h)"
proof -
  have h: "h \<noteq> 0" using assms(3) by simp
  have nb: "0 \<le> py_round ((t0 - a) / h)" using assms by (intro py_round_nonneg) simp
  have nf: "0 \<le> py_round ((b - t0) / h)" using assms by (intro py_round_nonneg) simp
  let ?buffer = "map (\<lambda>k. (backward_step ub h ^^ k) (t0, y0)) [1..<Suc (backward_count a t0 h)]"
  let ?fwd = "map (\<lambda>k. (forward_step uf h ^^ k) (t0, y0)) [1..<Suc (forward_count b t0 h)]"
  have "bidirectional ub uf a b t0 y0 h = Inr (unzip (rev ?buffer @ [(t0, y0)] @ ?fwd))"
    unfolding bidirectional_protocol [OF assms(1,2) h] stepping_protocol_def Let_def ..
  moreover have "int (length ?buffer) = py_round ((t0 - a) / h)"
    using nb by (simp add: backward_count_def del: upt_Suc)
  moreover have "int (length ?fwd) = py_round ((b - t0) / h)"
    using nf by (simp add: forward_count_def del: upt_Suc)
  ultimately show ?thesis by blast
qed

section \<open>The comparison table and its time axis\<close>

lemma get_column_update:
  "get_column (df\<lparr>columns := AList.update k v (columns df)\<rparr>) k' =
     (if k' = k then Some v else get_column df k')"
  by (simp add: get_column_def update_conv')

lemma set_item_same_length:
  assumes "length val = nrows df"
  shows "set_item key val df = Inr (df\<lparr>columns := AList.update key val (columns df)\<rparr>)"
proof (cases "nrows df = 0")
  case True
  then have "val = []" using assms by simp
  then show ?thesis using True by (simp add: set_item_def)
next
  case False
  then show ?thesis using assms by (simp add: set_item_def)
qed

lemma set_item_empty_frame:
  "set_item T_col val empty_frame = Inr \<lparr>nrows = length val, columns = [(T_col, val)]\<rparr>"
  by (cases val) (simp_all add: set_item_def empty_frame_def)

lemma list_setitem_length: "list_setitem l i v = Inr l' \<Longrightarrow> length l' = length l"
  by (auto simp: list_setitem_def Let_def split: if_splits)

lemma place_length: "place hi space vs j l = Inr l' \<Longrightarrow> length l' = length l"
proof (induction vs arbitrary: j l)
  case Nil
  then show ?case by simp
next
  case (Cons v vs)
  then show ?case
    by (auto split: sum.splits dest: list_setitem_length)
qed

lemma step_len_columns_keeps_axis:
  "step_len_columns f method a b t0 y0 space hs df = Inr df' \<Longrightarrow>
     nrows df' = nrows df \<and> get_column df' T_col = get_column df T_col"
proof (induction hs arbitrary: df)
  case Nil
  then show ?case by simp
next
  case (Cons hi hs)
  let ?df1 = "set_item_nan (Y_col hi) df"
  have n1: "nrows ?df1 = nrows df" by (simp add: set_item_nan_def)
  have c1: "get_column ?df1 T_col = get_column df T_col"
    by (simp add: set_item_nan_def get_column_update)
  from Cons.prems obtain t y l df2 where
    m: "method f a b t0 y0 hi = Inr (t, y)"
    and p: "place hi space y 0 (replicate (nrows ?df1) None) = Inr l"
    and s: "set_item (Y_col hi) l ?df1 = Inr df2"
    and r: "step_len_columns f method a b t0 y0 space hs df2 = Inr df'"
    by (auto simp: Let_def split: sum.splits prod.splits)
  have "length l = nrows ?df1" using place_length [OF p] by simp
  from s [unfolded set_item_same_length [OF this]]
  have df2: "df2 = ?df1\<lparr>columns := AList.update (Y_col hi) l (columns ?df1)\<rparr>" by simp
  have "nrows df2 = nrows df" "get_column df2 T_col = get_column df T_col"
    unfolding df2 using n1 c1 by (simp_all add: get_column_update)
  with Cons.IH [OF r] show ?case by simp
qed

lemma step_len_columns_euler_keeps_axis:
  "step_len_columns_euler f method a b t0 y0 space hs df = Inr df' \<Longrightarrow> 0 < nrows df \<Longrightarrow>
     nrows df' = nrows df \<and> get_column df' T_col = get_column df T_col"
proof (induction hs arbitrary: df)
  case Nil
  then show ?case by simp
next
  case (Cons hi hs)
  from Cons.prems(1) obtain y js df2 where
    s: "set_item (Y_col hi) (map (\<lambda>j. Some (y ! j)) js) df = Inr df2"
    and r: "step_len_columns_euler f method a b t0 y0 space hs df2 = Inr df'"
    by (auto split: sum.splits prod.splits if_splits)
  from s Cons.prems(2)
  have df2: "df2 = df\<lparr>columns := AList.update (Y_col hi) (map (\<lambda>j. Some (y ! j)) js) (columns df)\<rparr>"
    by (auto simp: set_item_def split: if_splits)
  have "nrows df2 = nrows df" "get_column df2 T_col = get_column df T_col"
    unfolding df2 by (simp_all add: get_column_update)
  with Cons.IH [OF r] Cons.prems(2) show ?case by simp
qed

lemma linspace_length: "linspace start stop num = Inr axis \<Longrightarrow> int (length axis) = num"
  by (auto simp: linspace_def split: if_splits)

lemma linspace_uniform:
  assumes "stop - start = real M * space" "1 \<le> M"
  shows "linspace start stop (int M + 1) = Inr (map (\<lambda>i. start + real i * space) [0..<Suc M])"
proof -
  have "(stop - start) / real M = space" using assms by simp
  moreover have "nat (int M + 1) = Suc M" by simp
  moreover have "int M + 1 \<noteq> 1" using assms(2) by simp
  ultimately show ?thesis
    unfolding linspace_def by (simp del: upt_Suc)
qed

lemma analyse_step_len_axis:
  assumes "hs \<noteq> []" "analyse_step_len f method a b t0 y0 hs = Inr df"
  shows "\<exists>axis. linspace a b (py_round ((b - a) / last hs) + 1) = Inr axis \<and>
           get_column df T_col = Some (map Some axis)"
proof -
  from assms obtain axis where
    l: "linspace a b (py_round ((b - a) / last hs) + 1) = Inr axis"
    and r: "step_len_columns f method a b t0 y0 (last hs) hs
              \<lparr>nrows = length (map Some axis), columns = [(T_col, map Some axis)]\<rparr> = Inr df"
    by (auto simp: analyse_step_len_def Let_def set_item_empty_frame split: if_splits sum.splits)
  from step_len_columns_keeps_axis [OF r]
  have "get_column df T_col = Some (map Some axis)" by (simp add: get_column_def)
  with l show ?thesis by blast
qed

lemma analyse_step_len_euler_axis:
  assumes "hs \<noteq> []" "a \<le> b" "0 < hd hs" "analyse_step_len_euler f method a b t0 y0 hs = Inr df"
  shows "\<exists>axis. linspace a b (py_round ((b - a) / hd hs) + 1) = Inr axis \<and>
           get_column df T_col = Some (map Some axis)"
proof -
  from assms(1,4) obtain axis where
    l: "linspace a b (py_round ((b - a) / hd hs) + 1) = Inr axis"
    and r: "step_len_columns_euler f method a b t0 y0 (hd hs) hs
              \<lparr>nrows = length (map Some axis), columns = [(T_col, map Some axis)]\<rparr> = Inr df"
    by (auto simp: analyse_step_len_euler_def Let_def set_item_empty_frame
        split: if_splits sum.splits)
  have "0 \<le> py_round ((b - a) / hd hs)"
    using assms(2,3) by (intro py_round_nonneg) simp
  then have "0 < length axis" using linspace_length [OF l] by (cases axis) auto
  then have "0 < nrows \<lparr>nrows = length (map Some axis), columns = [(T_col, map Some axis)]\<rparr>"
    by simp
  from step_len_columns_euler_keeps_axis [OF r this]
  have "get_column df T_col = Some (map Some axis)" by (simp add: get_column_def)
  with l show ?thesis by blast
qed

section \<open>When the harness returns a table\<close>

lemma list_setitem_Inr_iff:
  "(\<exists>l'. list_setitem l i v = Inr l') \<longleftrightarrow> index_in_table (length l) i"
  by (auto simp: list_setitem_def index_in_table_def Let_def)

lemma place_Inr_iff:
  "(\<exists>l'. place hi space vs j l = Inr l') \<longleftrightarrow>
     (\<forall>i<length vs. index_in_table (length l) (py_round (real (j + i) * hi / space)))"
proof (induction vs arbitrary: j l)
  case Nil
  show ?case by simp
next
  case (Cons v vs)
  show ?case
  proof (cases "list_setitem l (py_round (real j * hi / space)) (Some v)")
    case (Inl e)
    then have "\<not> index_in_table (length l) (py_round (real j * hi / space))"
      using list_setitem_Inr_iff [of l "py_round (real j * hi / space)" "Some v"] by simp
    then have "\<not> (\<forall>i<length (v # vs). index_in_table (length l) (py_round (real (j + i) * hi / space)))"
      by (auto intro: exI [of _ 0])
    then show ?thesis using Inl by simp
  next
    case (Inr l1)
    then have ok: "index_in_table (length l) (py_round (real j * hi / space))"
      using list_setitem_Inr_iff [of l "py_round (real j * hi / space)" "Some v"] by blast
    have len: "length l1 = length l" using Inr by (rule list_setitem_length)
    have "(\<forall>i<length (v # vs). index_in_table (length l) (py_round (real (j + i) * hi / space))) \<longleftrightarrow>
          (\<forall>i<length vs. index_in_table (length l) (py_round (real (Suc j + i) * hi / space)))"
      (is "?A \<longleftrightarrow> ?B")
    proof
      assume a: ?A
      show ?B
      proof (intro allI impI)
        fix i assume "i < length vs"
        then have "Suc i < length (v # vs)" by simp
        with a have "index_in_table (length l) (py_round (real (j + Suc i) * hi / space))" by blast
        then show "index_in_table (length l) (py_round (real (Suc j + i) * hi / space))" by simp
      qed
    next
      assume b: ?B
      show ?A
      proof (intro allI impI)
        fix i assume i: "i < length (v # vs)"
        show "index_in_table (length l) (py_round (real (j + i) * hi / space))"
        proof (cases i)
          case 0
          then show ?thesis using ok by simp
        next
          case (Suc i')
          then have "i' < length vs" using i by simp
          with b have "index_in_table (length l) (py_round (real (Suc j + i') * hi / space))" by blast
          then show ?thesis using Suc by simp
        qed
      qed
    qed
    then show ?thesis
      using Inr Cons.IH [of "Suc j" l1] len by simp
  qed
qed

lemma step_len_columns_Inr_iff:
  "(\<exists>df'. step_len_columns f method a b t0 y0 space hs df = Inr df') \<longleftrightarrow>
     (\<forall>hi\<in>set hs. \<exists>t y. method f a b t0 y0 hi = Inr (t, y) \<and>
        (\<forall>j<length y. index_in_table (nrows df) (py_round (real j * hi / space))))"
proof (induction hs arbitrary: df)
  case Nil
  show ?case by simp
next
  case (Cons hi hs)
  let ?df1 = "set_item_nan (Y_col hi) df"
  have n1: "nrows ?df1 = nrows df" by (simp add: set_item_nan_def)
  show ?case
  proof (cases "method f a b t0 y0 hi")
    case (Inl e)
    then show ?thesis by (simp add: Let_def)
  next
    case (Inr ty)
    obtain t y where ty: "ty = (t, y)" by (cases ty)
    show ?thesis
    proof (cases "place hi space y 0 (replicate (nrows ?df1) None)")
      case (Inl e)
      then have "\<not> (\<forall>j<length y. index_in_table (nrows df) (py_round (real j * hi / space)))"
        using place_Inr_iff [of hi space y 0 "replicate (nrows ?df1) None"] n1 by simp
      then show ?thesis using Inl Inr ty by (simp add: Let_def)
    next
      case pl: (Inr l)
      then have ok: "\<forall>j<length y. index_in_table (nrows df) (py_round (real j * hi / space))"
        using place_Inr_iff [of hi space y 0 "replicate (nrows ?df1) None"] n1 by auto
      have "length l = nrows ?df1" using place_length [OF pl] by simp
      note s = set_item_same_length [OF this, of "Y_col hi"]
      let ?df2 = "?df1\<lparr>columns := AList.update (Y_col hi) l (columns ?df1)\<rparr>"
      have n2: "nrows ?df2 = nrows df" using n1 by simp
      have eq: "step_len_columns f method a b t0 y0 space (hi # hs) df =
              step_len_columns f method a b t0 y0 space hs ?df2"
        using Inr ty pl s by (simp add: Let_def)
      have IH: "(\<exists>df'. step_len_columns f method a b t0 y0 space hs ?df2 = Inr df') \<longleftrightarrow>
          (\<forall>hi\<in>set hs. \<exists>t y. method f a b t0 y0 hi = Inr (t, y) \<and>
             (\<forall>j<length y. index_in_table (nrows df) (py_round (real j * hi / space))))"
        using Cons.IH [of ?df2] by (simp only: n2)
      have here: "\<exists>t y. method f a b t0 y0 hi = Inr (t, y) \<and>
             (\<forall>j<length y. index_in_table (nrows df) (py_round (real j * hi / space)))"
        using Inr ty ok by blast
      show ?thesis
        unfolding eq IH using here by (simp only: list.set ball_simps) blast
    qed
  qed
qed

lemma linspace_Inr_iff: "(\<exists>axis. linspace start stop num = Inr axis) \<longleftrightarrow> 0 \<le> num"
  by (auto simp: linspace_def)

lemma linspace_length_nat: "linspace start stop num = Inr axis \<Longrightarrow> length axis = nat num"
  by (auto simp: linspace_def split: if_splits)

lemma three_halves_not_int: "(3::real) / 2 \<notin> \<int>"
proof
  assume "(3::real) / 2 \<in> \<int>"
  then obtain k :: int where "(3::real) / 2 = of_int k" by (auto elim: Ints_cases)
  then have "(3::real) = of_int (2 * k)" by simp
  then have "(3::int) = 2 * k" using of_int_eq_iff [of 3 "2 * k", where ?'a = real] by simp
  then show False by presburger
qed

section \<open>Columns of commensurate step sizes\<close>

lemma length_spread: "length (spread n k ys) = n"
  by (simp add: spread_def)

lemma spread_nth:
  "i < n \<Longrightarrow> spread n k ys ! i =
     (if k dvd i \<and> i div k < length ys then Some (ys ! (i div k)) else None)"
  by (simp add: spread_def)

lemma spread_Nil: "spread n k [] = replicate n None"
  by (simp add: spread_def map_replicate_const)

lemma spread_at_multiple:
  assumes "1 \<le> k" "j < length ys" "j * k < n"
  shows "spread n k ys ! (j * k) = Some (ys ! j)"
  using assms by (simp add: spread_nth)

lemma spread_take_Suc:
  assumes "1 \<le> k" "j < length ys" "j * k < n"
  shows "(spread n k (take j ys))[j * k := Some (ys ! j)] = spread n k (take (Suc j) ys)"
proof (rule nth_equalityI)
  show "length ((spread n k (take j ys))[j * k := Some (ys ! j)]) = length (spread n k (take (Suc j) ys))"
    by (simp add: length_spread)
next
  fix i assume "i < length ((spread n k (take j ys))[j * k := Some (ys ! j)])"
  then have i: "i < n" by (simp add: length_spread)
  have lj: "length (take j ys) = j" "length (take (Suc j) ys) = Suc j"
    using assms(2) by simp_all
  show "(spread n k (take j ys))[j * k := Some (ys ! j)] ! i = spread n k (take (Suc j) ys) ! i"
  proof (cases "i = j * k")
    case True
    then show ?thesis
      using i assms(1,2) unfolding spread_nth [OF i] lj by (simp add: length_spread)
  next
    case False
    have not_j: "i div k \<noteq> j" if "k dvd i"
    proof
      assume "i div k = j"
      then have "i = j * k" using that by auto
      with False show False by simp
    qed
    have "(spread n k (take j ys))[j * k := Some (ys ! j)] ! i = spread n k (take j ys) ! i"
      using False by simp
    also have "\<dots> = (if k dvd i \<and> i div k < j then Some (take j ys ! (i div k)) else None)"
      unfolding spread_nth [OF i] lj ..
    also have "\<dots> = (if k dvd i \<and> i div k < Suc j then Some (take (Suc j) ys ! (i div k)) else None)"
      using not_j by (auto simp: less_Suc_eq)
    also have "\<dots> = spread n k (take (Suc j) ys) ! i"
      unfolding spread_nth [OF i] lj ..
    finally show ?thesis .
  qed
qed

lemma list_setitem_nat: "i < length l \<Longrightarrow> list_setitem l (int i) v = Inr (l[i := v])"
  by (simp add: list_setitem_def Let_def)

lemma place_spread_from:
  assumes "1 \<le> k" "hi = real k * space" "space \<noteq> 0" "\<forall>i<length ys. i * k < n"
  shows "j \<le> length ys \<Longrightarrow>
         place hi space (drop j ys) j (spread n k (take j ys)) = Inr (spread n k ys)"
proof (induction "length ys - j" arbitrary: j)
  case 0
  then show ?case by simp
next
  case (Suc d)
  then have j: "j < length ys" by simp
  have idx: "py_round (real j * hi / space) = int (j * k)"
  proof -
    have "real j * hi / space = real (j * k)" using assms(2,3) by simp
    then show ?thesis by (simp only: py_round_of_nat)
  qed
  have jk: "j * k < n" using assms(4) j by blast
  have set: "list_setitem (spread n k (take j ys)) (int (j * k)) (Some (ys ! j)) =
          Inr ((spread n k (take j ys))[j * k := Some (ys ! j)])"
    by (rule list_setitem_nat) (simp add: length_spread jk)
  have d: "drop j ys = ys ! j # drop (Suc j) ys"
    using j by (simp add: Cons_nth_drop_Suc)
  have "place hi space (drop j ys) j (spread n k (take j ys)) =
        place hi space (drop (Suc j) ys) (Suc j) (spread n k (take (Suc j) ys))"
    unfolding d place.simps idx set spread_take_Suc [OF assms(1) j jk] by simp
  also have "\<dots> = Inr (spread n k ys)"
    using Suc.hyps(1) [of "Suc j"] Suc.hyps(2) j by simp
  finally show ?case .
qed

lemma place_spread:
  assumes "1 \<le> k" "hi = real k * space" "space \<noteq> 0" "\<forall>i<length ys. i * k < n"
  shows "place hi space ys 0 (replicate n None) = Inr (spread n k ys)"
  using place_spread_from [OF assms, of 0] by (simp add: spread_Nil)

lemma multiples_in_range:
  assumes "1 \<le> k" "\<forall>j<len. j * k < n"
  shows "filter (\<lambda>i. k dvd i \<and> i div k < len) [0..<n] = map (\<lambda>j. j * k) [0..<len]"
proof (rule sorted_distinct_set_unique)
  show "sorted (filter (\<lambda>i. k dvd i \<and> i div k < len) [0..<n])"
    by (rule sorted_wrt_filter) simp
  show "distinct (filter (\<lambda>i. k dvd i \<and> i div k < len) [0..<n])" by simp
  show "sorted (map (\<lambda>j. j * k) [0..<len])"
    by (rule sorted_map_mono) (auto simp: mono_on_def)
  have "inj_on (\<lambda>j. j * k) (set [0..<len])"
    using assms(1) by (auto simp: inj_on_def)
  then show "distinct (map (\<lambda>j. j * k) [0..<len])"
    by (simp add: distinct_map)
  show "set (filter (\<lambda>i. k dvd i \<and> i div k < len) [0..<n]) = set (map (\<lambda>j. j * k) [0..<len])"
  proof (intro set_eqI iffI)
    fix i assume "i \<in> set (filter (\<lambda>i. k dvd i \<and> i div k < len) [0..<n])"
    then have "k dvd i" "i div k < len" by simp_all
    then have "i = (i div k) * k" by simp
    with \<open>i div k < len\<close> show "i \<in> set (map (\<lambda>j. j * k) [0..<len])" by auto
  next
    fix i assume "i \<in> set (map (\<lambda>j. j * k) [0..<len])"
    then obtain j where j: "j < len" "i = j * k" by auto
    then have "i < n" using assms(2) by blast
    moreover have "k dvd i" "i div k = j" using j assms(1) by simp_all
    ultimately show "i \<in> set (filter (\<lambda>i. k dvd i \<and> i div k < len) [0..<n])"
      using j(1) by simp
  qed
qed

lemma spread_values:
  assumes "1 \<le> k" "\<forall>j<length ys. j * k < n"
  shows "map the (filter (\<lambda>v. v \<noteq> None) (spread n k ys)) = ys"
proof -
  let ?g = "\<lambda>i. if k dvd i \<and> i div k < length ys then Some (ys ! (i div k)) else None"
  have "filter (\<lambda>v. v \<noteq> None) (spread n k ys) =
        map ?g (filter (\<lambda>i. k dvd i \<and> i div k < length ys) [0..<n])"
    unfolding spread_def filter_map by (rule arg_cong [where f = "map ?g"], rule filter_cong) auto
  also have "\<dots> = map ?g (map (\<lambda>j. j * k) [0..<length ys])"
    by (simp only: multiples_in_range [OF assms])
  also have "\<dots> = map (\<lambda>j. Some (ys ! j)) [0..<length ys]"
    using assms(1) by simp
  finally have "map the (filter (\<lambda>v. v \<noteq> None) (spread n k ys)) = map (\<lambda>j. ys ! j) [0..<length ys]"
    by (simp add: o_def)
  then show ?thesis by (simp add: map_nth)
qed

lemma step_len_columns_other_column:
  "step_len_columns f method a b t0 y0 space hs df = Inr df' \<Longrightarrow> key \<notin> Y_col ` set hs \<Longrightarrow>
     get_column df' key = get_column df key"
proof (induction hs arbitrary: df)
  case Nil
  then show ?case by simp
next
  case (Cons hi hs)
  let ?df1 = "set_item_nan (Y_col hi) df"
  have key: "key \<noteq> Y_col hi" "key \<notin> Y_col ` set hs" using Cons.prems(2) by auto
  have c1: "get_column ?df1 key = get_column df key"
    using key(1) by (simp add: set_item_nan_def get_column_update)
  from Cons.prems(1) obtain t y l df2 where
    m: "method f a b t0 y0 hi = Inr (t, y)"
    and p: "place hi space y 0 (replicate (nrows ?df1) None) = Inr l"
    and s: "set_item (Y_col hi) l ?df1 = Inr df2"
    and r: "step_len_columns f method a b t0 y0 space hs df2 = Inr df'"
    by (auto simp: Let_def split: sum.splits prod.splits)
  have "length l = nrows ?df1" using place_length [OF p] by simp
  from s [unfolded set_item_same_length [OF this]]
  have df2: "df2 = ?df1\<lparr>columns := AList.update (Y_col hi) l (columns ?df1)\<rparr>" by simp
  have "get_column df2 key = get_column df key"
    unfolding df2 using c1 key(1) by (simp add: get_column_update)
  with Cons.IH [OF r key(2)] show ?case by simp
qed

lemma step_len_columns_columns:
  assumes "\<And>hi. hi \<in> set hs \<Longrightarrow>
             \<exists>t y. method f a b t0 y0 hi = Inr (t, y) \<and>
                   place hi space y 0 (replicate (nrows df) None) = Inr (col hi)"
  shows "\<exists>df'. step_len_columns f method a b t0 y0 space hs df = Inr df' \<and>
           (\<forall>hi\<in>set hs. get_column df' (Y_col hi) = Some (col hi)) \<and>
           get_column df' T_col = get_column df T_col"
  using assms
proof (induction hs arbitrary: df)
  case Nil
  show ?case by simp
next
  case (Cons hi hs)
  let ?df1 = "set_item_nan (Y_col hi) df"
  have n1: "nrows ?df1 = nrows df" by (simp add: set_item_nan_def)
  from Cons.prems [of hi] obtain t y where
    m: "method f a b t0 y0 hi = Inr (t, y)"
    and p: "place hi space y 0 (replicate (nrows ?df1) None) = Inr (col hi)"
    unfolding n1 by auto
  have "length (col hi) = nrows ?df1" using place_length [OF p] by simp
  note s = set_item_same_length [OF this, of "Y_col hi"]
  let ?df2 = "?df1\<lparr>columns := AList.update (Y_col hi) (col hi) (columns ?df1)\<rparr>"
  have n2: "nrows ?df2 = nrows df" using n1 by simp
  have eq: "step_len_columns f method a b t0 y0 space (hi # hs) df =
              step_len_columns f method a b t0 y0 space hs ?df2"
    using m p s by (simp add: Let_def)
  have "\<exists>t y. method f a b t0 y0 h' = Inr (t, y) \<and>
              place h' space y 0 (replicate (nrows ?df2) None) = Inr (col h')"
    if "h' \<in> set hs" for h'
    unfolding n2 using Cons.prems [of h'] that by simp
  from Cons.IH [OF this] obtain df' where
    r: "step_len_columns f method a b t0 y0 space hs ?df2 = Inr df'"
    and c: "\<forall>h'\<in>set hs. get_column df' (Y_col h') = Some (col h')"
    and t: "get_column df' T_col = get_column ?df2 T_col"
    by blast
  have t2: "get_column ?df2 T_col = get_column df T_col"
    by (simp add: get_column_update set_item_nan_def)
  have here: "get_column df' (Y_col hi) = Some (col hi)"
  proof (cases "hi \<in> set hs")
    case True
    with c show ?thesis by blast
  next
    case False
    have "get_column df' (Y_col hi) = get_column ?df2 (Y_col hi)"
      using step_len_columns_other_column [OF r, of "Y_col hi"] False by auto
    then show ?thesis by (simp add: get_column_update)
  qed
  show ?case
    unfolding eq using r c t t2 here by simp
qed

lemma bidirectional_on_grid:
  assumes "0 < h" "t0 - a = real n * h" "b - t0 = real m * h"
  shows "\<exists>ts ys. bidirectional ub uf a b t0 y0 h = Inr (ts, ys) \<and>
           length ts = n + m + 1 \<and> length ys = n + m + 1 \<and>
           (\<forall>j<n + m + 1. ts ! j = a + real j * h)"
proof -
  have le: "a \<le> t0" "t0 \<le> b"
  proof -
    have "0 \<le> real n * h" "0 \<le> real m * h" using assms(1) by simp_all
    then show "a \<le> t0" "t0 \<le> b" using assms(2,3) by linarith+
  qed
  have h: "h \<noteq> 0" using assms(1) by simp
  have nb: "backward_count a t0 h = n"
  proof -
    have "(t0 - a) / h = real n" using assms(1,2) by simp
    then show ?thesis by (simp add: backward_count_def py_round_of_nat)
  qed
  have nf: "forward_count b t0 h = m"
  proof -
    have "(b - t0) / h = real m" using assms(1,3) by simp
    then show ?thesis by (simp add: forward_count_def py_round_of_nat)
  qed
  let ?tr = "stepping_protocol (backward_step ub h) (forward_step uf h) a b t0 y0 h"
  have len: "length ?tr = n + m + 1"
    unfolding length_stepping_protocol nb nf by simp
  have time: "map fst ?tr ! j = a + real j * h" if "j < n + m + 1" for j
  proof -
    have j: "j < length ?tr" using that len by simp
    have "fst (?tr ! j) = t0 + (real j - real n) * h"
      using stepping_protocol_time [OF j] unfolding nb .
    also have "\<dots> = a + real j * h"
      using assms(2) by (simp add: algebra_simps)
    finally show ?thesis using j by simp
  qed
  have "bidirectional ub uf a b t0 y0 h = Inr (map fst ?tr, map snd ?tr)"
    unfolding bidirectional_protocol [OF le h] unzip_def ..
  moreover have "length (map fst ?tr) = n + m + 1" "length (map snd ?tr) = n + m + 1"
    using len by simp_all
  ultimately show ?thesis using time by blast
qed

lemma linspace_grid:
  assumes "b - a = real M * space" "0 < space"
  shows "linspace a b (py_round ((b - a) / space) + 1) =
           Inr (map (\<lambda>i. a + real i * space) [0..<Suc M])"
proof (cases "M = 0")
  case True
  then show ?thesis using assms by (simp add: linspace_def py_round_zero)
next
  case False
  then have M: "1 \<le> M" by simp
  have "(b - a) / space = real M" using assms by simp
  then show ?thesis
    using linspace_uniform [OF assms(1) M] by (simp add: py_round_of_nat del: upt_Suc)
qed

lemma column_of_commensurate_step:
  assumes "0 < space" "1 \<le> k" "hi = real k * space"
    and "t0 - a = real n * hi" "b - t0 = real m * hi" "b - a = real M * space"
  shows "\<exists>ts ys. bidirectional ub uf a b t0 y0 hi = Inr (ts, ys) \<and>
           place hi space ys 0 (replicate (Suc M) None) = Inr (spread (Suc M) k ys) \<and>
           map the (filter (\<lambda>v. v \<noteq> None) (spread (Suc M) k ys)) = ys \<and>
           (\<forall>j<length ys. j * k < Suc M \<and> spread (Suc M) k ys ! (j * k) = Some (ys ! j) \<and>
                          a + real (j * k) * space = ts ! j)"
proof -
  have hi: "0 < hi" using assms(1-3) by simp
  obtain ts ys where r: "bidirectional ub uf a b t0 y0 hi = Inr (ts, ys)"
    and len: "length ts = n + m + 1" "length ys = n + m + 1"
    and time: "\<forall>j<n + m + 1. ts ! j = a + real j * hi"
    using bidirectional_on_grid [OF hi assms(4,5), of ub uf y0] by blast
  have M: "(n + m) * k = M"
  proof -
    have "real ((n + m) * k) * space = real M * space"
      using assms(3-6) by (simp add: algebra_simps)
    then have "real ((n + m) * k) = real M" using assms(1) by simp
    then show ?thesis by (simp only: of_nat_eq_iff)
  qed
  have range: "\<forall>j<length ys. j * k < Suc M"
  proof (intro allI impI)
    fix j assume "j < length ys"
    then have "j \<le> n + m" using len(2) by simp
    then have "j * k \<le> (n + m) * k" by (rule mult_le_mono1)
    then show "j * k < Suc M" using M by simp
  qed
  have space: "space \<noteq> 0" using assms(1) by simp
  have p: "place hi space ys 0 (replicate (Suc M) None) = Inr (spread (Suc M) k ys)"
    by (rule place_spread [OF assms(2,3) space range])
  have v: "map the (filter (\<lambda>v. v \<noteq> None) (spread (Suc M) k ys)) = ys"
    by (rule spread_values [OF assms(2) range])
  have at: "j * k < Suc M \<and> spread (Suc M) k ys ! (j * k) = Some (ys ! j) \<and>
      a + real (j * k) * space = ts ! j"
    if j: "j < length ys" for j
  proof (intro conjI)
    show "j * k < Suc M" using range j by blast
    then show "spread (Suc M) k ys ! (j * k) = Some (ys ! j)"
      using j by (intro spread_at_multiple [OF assms(2)]) simp_all
    have "ts ! j = a + real j * hi" using time j len(2) by simp
    then show "a + real (j * k) * space = ts ! j"
      using assms(3) by (simp add: algebra_simps)
  qed
  show ?thesis using r p v at by blast
qed

section \<open>The rounded solvers are instances of the rounded driver\<close>

lemma fixed_point_loop_rounded_id:
  "fixed_point_loop_rounded (\<lambda>x. x) upd threshold epochs epoch y =
     fixed_point_loop upd threshold epochs epoch y"
proof (induction upd threshold epochs epoch y rule: fixed_point_loop.induct)
  case (1 upd threshold epochs epoch y)
  show ?case
  proof (cases "\<bar>upd y - y\<bar> < threshold \<or> epoch + 1 > epochs")
    case True
    then show ?thesis
      by (subst fixed_point_loop_rounded.simps, subst fixed_point_loop.simps) simp
  next
    case False
    then show ?thesis
      using "1.IH" by (subst fixed_point_loop_rounded.simps, subst fixed_point_loop.simps) simp
  qed
qed

lemma rounded_with_identity:
  "euler_explicit_rounded (\<lambda>x. x) = euler_explicit"
  "euler_implicit_rounded (\<lambda>x. x) = euler_implicit"
  "euler_trapezium_rounded (\<lambda>x. x) = euler_trapezium"
  "euler_improved_rounded (\<lambda>x. x) = euler_improved"
  by (simp_all add: fun_eq_iff euler_explicit_rounded_def euler_explicit_def
      euler_implicit_rounded_def euler_implicit_def euler_trapezium_rounded_def
      euler_trapezium_def euler_improved_rounded_def euler_improved_def
      fixed_point_loop_rounded_id)






section \<open>Rounding to a double\<close>









section \<open>The rounded driver\<close>












section \<open>Runs in double arithmetic\<close>




section \<open>Claims\<close>

subsection \<open>C2: the bidirectional stepping protocol\<close>

text \<open>
  Claim C2. For \<open>a \<le> t0 \<le> b\<close> and \<open>h > 0\<close>, each of the four solvers returns the
  trajectory of the stepping protocol run with that solver's backward and forward update
  rules: \<open>round((t0 - a)/h)\<close> backward steps from \<open>(t0, y0)\<close> collected in a buffer, the
  buffer reversed and put first, then \<open>(t0, y0)\<close>, then \<open>round((b - t0)/h)\<close> forward steps
  starting again from \<open>(t0, y0)\<close>. The trajectory has
  \<open>round((t0 - a)/h) + 1 + round((b - t0)/h)\<close> samples, and for \<open>t0 = a\<close> the backward
  pass contributes nothing.
\<close>

theorem solvers_follow_stepping_protocol:
  assumes "a \<le> t0" "t0 \<le> b" "0 < h"
  shows "euler_explicit f a b t0 y0 h =
           Inr (unzip (stepping_protocol (backward_step (explicit_back f h) h)
                         (forward_step (explicit_fwd f h) h) a b t0 y0 h))
       \<and> euler_implicit f a b t0 y0 h threshold epochs =
           Inr (unzip (stepping_protocol (backward_step (implicit_back f h threshold epochs) h)
                         (forward_step (implicit_fwd f h threshold epochs) h) a b t0 y0 h))
       \<and> euler_trapezium f a b t0 y0 h threshold epochs =
           Inr (unzip (stepping_protocol (backward_step (trapezium_back f h threshold epochs) h)
                         (forward_step (trapezium_fwd f h threshold epochs) h) a b t0 y0 h))
       \<and> euler_improved f a b t0 y0 h =
           Inr (unzip (stepping_protocol (backward_step (improved_back f h) h)
                         (forward_step (improved_fwd f h) h) a b t0 y0 h))
       \<and> length (stepping_protocol back fwd a b t0 y0 h) =
           nat (py_round ((t0 - a) / h)) + 1 + nat (py_round ((b - t0) / h))
       \<and> (t0 = a \<longrightarrow>
            stepping_protocol back fwd a b t0 y0 h =
              (t0, y0) # map (\<lambda>k. (fwd ^^ k) (t0, y0)) [1..<Suc (nat (py_round ((b - t0) / h)))])"
proof -
  have h: "h \<noteq> 0" using assms(3) by simp
  have noop: "t0 = a \<Longrightarrow>
      stepping_protocol back fwd a b t0 y0 h =
        (t0, y0) # map (\<lambda>k. (fwd ^^ k) (t0, y0)) [1..<Suc (nat (py_round ((b - t0) / h)))]"
    by (simp add: stepping_protocol_def backward_count_def forward_count_def py_round_zero
        del: upt_Suc)
  have len: "length (stepping_protocol back fwd a b t0 y0 h) =
           nat (py_round ((t0 - a) / h)) + 1 + nat (py_round ((b - t0) / h))"
    by (simp add: length_stepping_protocol backward_count_def forward_count_def)
  show ?thesis
    unfolding euler_explicit_bidirectional euler_implicit_bidirectional
      euler_trapezium_bidirectional euler_improved_bidirectional
      bidirectional_protocol [OF assms(1,2) h]
    using noop len by simp
qed

theorem solvers_follow_stepping_protocol_witness:
  "euler_explicit (\<lambda>t y. y) 0 1 (1 / 2) 1 (1 / 2) =
           Inr (unzip (stepping_protocol (backward_step (explicit_back (\<lambda>t y. y) (1 / 2)) (1 / 2))
                         (forward_step (explicit_fwd (\<lambda>t y. y) (1 / 2)) (1 / 2)) 0 1 (1 / 2) 1 (1 / 2)))
   \<and> euler_explicit (\<lambda>t y. y) 0 1 (1 / 2) 1 (1 / 2) = Inr ([0, 1 / 2, 1], [1 / 2, 1, 3 / 2])
   \<and> euler_implicit (\<lambda>t y. y) 0 1 (1 / 2) 1 (1 / 2) 0 1 =
           Inr (unzip (stepping_protocol (backward_step (implicit_back (\<lambda>t y. y) (1 / 2) 0 1) (1 / 2))
                         (forward_step (implicit_fwd (\<lambda>t y. y) (1 / 2) 0 1) (1 / 2)) 0 1 (1 / 2) 1 (1 / 2)))"
proof -
  have e: "euler_explicit (\<lambda>t y. y) 0 1 (1 / 2) 1 (1 / 2) = Inr ([0, 1 / 2, 1], [1 / 2, 1, 3 / 2])"
    by (simp add: euler_explicit_def for_range_def py_round_def Let_def)
  show ?thesis
    using solvers_follow_stepping_protocol [of 0 "1 / 2" 1 "1 / 2" "\<lambda>t y. y" 1 0 1 id id] e
    by simp
qed

subsection \<open>C3: constant derivatives are integrated exactly\<close>

text \<open>
  Claim C3. For a constant derivative \<open>f(t, y) = c\<close>, every one of the four solvers
  returns (whenever it returns a trajectory, that is for \<open>a \<le> t0 \<le> b\<close> and \<open>h \<noteq> 0\<close>)
  samples with \<open>y_k = y0 + c * (t_k - t0)\<close> at every index \<open>k\<close>; for \<open>c = 0\<close> every sample
  has \<open>y_k = y0\<close>. The equalities are those of exact arithmetic.
\<close>

theorem constant_derivative_exact:
  assumes "S \<in> solvers" "a \<le> t0" "t0 \<le> b" "h \<noteq> 0"
  shows "(\<exists>ts. S (\<lambda>t y. c) a b t0 y0 h = Inr (ts, map (\<lambda>t. y0 + c * (t - t0)) ts))
       \<and> (\<exists>ts. S (\<lambda>t y. 0) a b t0 y0 h = Inr (ts, replicate (length ts) y0))"
proof -
  have line: "\<exists>ts. S (\<lambda>t y. c) a b t0 y0 h = Inr (ts, map (\<lambda>t. y0 + c * (t - t0)) ts)" for c
    using assms(1)
  proof cases
    case explicit
    show ?thesis unfolding explicit euler_explicit_bidirectional
      by (rule bidirectional_constant [OF constant_rules(1,2) assms(2-4)])
  next
    case (implicit threshold epochs)
    show ?thesis unfolding implicit euler_implicit_bidirectional
      by (rule bidirectional_constant [OF constant_rules(3,4) assms(2-4)])
  next
    case (trapezium threshold epochs)
    show ?thesis unfolding trapezium euler_trapezium_bidirectional
      by (rule bidirectional_constant [OF constant_rules(5,6) assms(2-4)])
  next
    case improved
    show ?thesis unfolding improved euler_improved_bidirectional
      by (rule bidirectional_constant [OF constant_rules(7,8) assms(2-4)])
  qed
  from line [of 0] have "\<exists>ts. S (\<lambda>t y. 0) a b t0 y0 h = Inr (ts, replicate (length ts) y0)"
    by (simp add: map_replicate_const)
  with line [of c] show ?thesis by blast
qed

theorem constant_derivative_exact_witness:
  "euler_trapezium (\<lambda>t y. 3) 0 1 (1 / 2) 1 (1 / 2) (1 / 1000000) 50 =
     Inr ([0, 1 / 2, 1], [- 1 / 2, 1, 5 / 2])
   \<and> (\<exists>ts. euler_trapezium (\<lambda>t y. 3) 0 1 (1 / 2) 1 (1 / 2) (1 / 1000000) 50 =
          Inr (ts, map (\<lambda>t. 1 + 3 * (t - 1 / 2)) ts))
   \<and> (\<exists>ts. euler_trapezium (\<lambda>t y. 0) 0 1 (1 / 2) 1 (1 / 2) (1 / 1000000) 50 =
          Inr (ts, replicate (length ts) 1))"
proof -
  have e: "euler_trapezium (\<lambda>t y. 3) 0 1 (1 / 2) 1 (1 / 2) (1 / 1000000) 50 =
     Inr ([0, 1 / 2, 1], [- 1 / 2, 1, 5 / 2])"
    by (simp add: euler_trapezium_def for_range_def py_round_def Let_def fixed_point_loop.simps)
  show ?thesis
    using constant_derivative_exact [OF solvers.trapezium, where a = 0 and ?t0.0 = "1 / 2" and b = 1
        and h = "1 / 2" and threshold1 = "1 / 1000000" and epochs1 = 50 and c = 3 and ?y0.0 = 1] e
    by simp
qed

subsection \<open>C1: what the fixed-point iteration accepts\<close>

text \<open>
  Claim C1, as amended. In \<^verbatim>\<open>euler_implicit\<close> and \<^verbatim>\<open>euler_trapezium\<close>, in both passes,
  each per-step iteration stops at the first pass \<open>n \<ge> 1\<close> at which the newly computed
  iterate is closer than \<open>threshold\<close> to the one it was computed from or \<open>n\<close> exceeds
  \<open>epochs\<close>, whichever comes first. The value stored as the new trajectory sample is the
  variable \<^verbatim>\<open>y_\<close>, the iterate that this last pass started from (the explicit Euler seed
  when the first pass stops), whichever condition stopped the loop; the last computed
  value \<^verbatim>\<open>y__\<close> is one update further and is dropped.

  The claim as stated, with the last computed \<^verbatim>\<open>y__\<close> as the accepted value, fails
  for \<open>f(t, y) = y\<close>, \<open>a = 0\<close>, \<open>b = 1\<close>, \<open>t0 = 0\<close>, \<open>y0 = 1\<close>, \<open>h = 1\<close>, threshold
  \<open>1/1000000\<close> and \<open>epochs = 2\<close>: the sample is \<open>4\<close>, the last computed value \<open>5\<close>.
\<close>

theorem fixed_point_iteration_accepts_start_of_last_pass:
  assumes "a \<le> t0" "t0 \<le> b" "h \<noteq> 0"
  shows "(\<exists>ts ys. euler_implicit f a b t0 y0 h threshold epochs = Inr (ts, ys) \<and>
            (\<forall>k. backward_count a t0 h \<le> k \<and> Suc k < length ys \<longrightarrow>
               accepted (\<lambda>y'. ys ! k + h * f (ts ! k + h) y') threshold epochs
                 (ys ! k + h * f (ts ! k) (ys ! k)) (ys ! Suc k)) \<and>
            (\<forall>k. k < backward_count a t0 h \<longrightarrow>
               accepted (\<lambda>y'. ys ! Suc k - h * f (ts ! Suc k - h) y') threshold epochs
                 (ys ! Suc k - h * f (ts ! Suc k) (ys ! Suc k)) (ys ! k)))
       \<and> (\<exists>ts ys. euler_trapezium f a b t0 y0 h threshold epochs = Inr (ts, ys) \<and>
            (\<forall>k. backward_count a t0 h \<le> k \<and> Suc k < length ys \<longrightarrow>
               accepted (\<lambda>y'. ys ! k + (1 / 2) * h * (f (ts ! k) (ys ! k) + f (ts ! k + h) y'))
                 threshold epochs (ys ! k + h * f (ts ! k) (ys ! k)) (ys ! Suc k)) \<and>
            (\<forall>k. k < backward_count a t0 h \<longrightarrow>
               accepted
                 (\<lambda>y'. ys ! Suc k - (1 / 2) * h * (f (ts ! Suc k) (ys ! Suc k) + f (ts ! Suc k - h) y'))
                 threshold epochs (ys ! Suc k - h * f (ts ! Suc k) (ys ! Suc k)) (ys ! k)))
       \<and> fst (snd (fixed_point_loop upd threshold epochs 0 seed)) =
           upd (fst (fixed_point_loop upd threshold epochs 0 seed))"
proof -
  have imp: "\<exists>ts ys. euler_implicit f a b t0 y0 h threshold epochs = Inr (ts, ys) \<and>
            (\<forall>k. backward_count a t0 h \<le> k \<and> Suc k < length ys \<longrightarrow>
               accepted (\<lambda>y'. ys ! k + h * f (ts ! k + h) y') threshold epochs
                 (ys ! k + h * f (ts ! k) (ys ! k)) (ys ! Suc k)) \<and>
            (\<forall>k. k < backward_count a t0 h \<longrightarrow>
               accepted (\<lambda>y'. ys ! Suc k - h * f (ts ! Suc k - h) y') threshold epochs
                 (ys ! Suc k - h * f (ts ! Suc k) (ys ! Suc k)) (ys ! k))"
  proof -
    obtain ts ys where r:
      "bidirectional (implicit_back f h threshold epochs) (implicit_fwd f h threshold epochs)
         a b t0 y0 h = Inr (ts, ys)"
      "\<And>k. backward_count a t0 h \<le> k \<Longrightarrow> Suc k < length ys \<Longrightarrow>
                ys ! Suc k = implicit_fwd f h threshold epochs (ts ! k) (ys ! k)"
      "\<And>k. k < backward_count a t0 h \<Longrightarrow>
                ys ! k = implicit_back f h threshold epochs (ts ! Suc k) (ys ! Suc k)"
      using bidirectional_consecutive [OF assms, of "implicit_back f h threshold epochs"
          "implicit_fwd f h threshold epochs" y0] by blast
    show ?thesis
      unfolding euler_implicit_bidirectional r(1)
      using r(2,3)
      by (auto simp: implicit_fwd_def implicit_back_def fixed_point_loop_accepted)
  qed
  have trap: "\<exists>ts ys. euler_trapezium f a b t0 y0 h threshold epochs = Inr (ts, ys) \<and>
            (\<forall>k. backward_count a t0 h \<le> k \<and> Suc k < length ys \<longrightarrow>
               accepted (\<lambda>y'. ys ! k + (1 / 2) * h * (f (ts ! k) (ys ! k) + f (ts ! k + h) y'))
                 threshold epochs (ys ! k + h * f (ts ! k) (ys ! k)) (ys ! Suc k)) \<and>
            (\<forall>k. k < backward_count a t0 h \<longrightarrow>
               accepted
                 (\<lambda>y'. ys ! Suc k - (1 / 2) * h * (f (ts ! Suc k) (ys ! Suc k) + f (ts ! Suc k - h) y'))
                 threshold epochs (ys ! Suc k - h * f (ts ! Suc k) (ys ! Suc k)) (ys ! k))"
  proof -
    obtain ts ys where r:
      "bidirectional (trapezium_back f h threshold epochs) (trapezium_fwd f h threshold epochs)
         a b t0 y0 h = Inr (ts, ys)"
      "\<And>k. backward_count a t0 h \<le> k \<Longrightarrow> Suc k < length ys \<Longrightarrow>
                ys ! Suc k = trapezium_fwd f h threshold epochs (ts ! k) (ys ! k)"
      "\<And>k. k < backward_count a t0 h \<Longrightarrow>
                ys ! k = trapezium_back f h threshold epochs (ts ! Suc k) (ys ! Suc k)"
      using bidirectional_consecutive [OF assms, of "trapezium_back f h threshold epochs"
          "trapezium_fwd f h threshold epochs" y0] by blast
    show ?thesis
      unfolding euler_trapezium_bidirectional r(1)
      using r(2,3)
      by (auto simp: trapezium_fwd_def trapezium_back_def fixed_point_loop_accepted)
  qed
  show ?thesis
    using imp trap fixed_point_loop_last_computed [of upd threshold epochs 0 seed] by blast
qed

theorem fixed_point_iteration_accepts_start_of_last_pass_witness:
  "euler_implicit (\<lambda>t y. y) 0 1 0 1 1 (1 / 1000000) 2 = Inr ([0, 1], [1, 4])
   \<and> accepted (\<lambda>y'. 1 + 1 * y') (1 / 1000000) 2 (1 + 1 * 1) 4"
proof -
  have e: "euler_implicit (\<lambda>t y. y) 0 1 0 1 1 (1 / 1000000) 2 = Inr ([0, 1], [1, 4])"
    by (simp add: euler_implicit_def for_range_def py_round_def Let_def fixed_point_loop.simps)
  have "(0::real) \<le> 0" "(0::real) \<le> 1" "(1::real) \<noteq> 0" by simp_all
  from fixed_point_iteration_accepts_start_of_last_pass [OF this, where f = "\<lambda>t y. y"
      and ?y0.0 = 1 and threshold = "1 / 1000000" and epochs = 2]
  obtain ts ys where r: "euler_implicit (\<lambda>t y. y) 0 1 0 1 1 (1 / 1000000) 2 = Inr (ts, ys)"
    and fw: "\<forall>k. backward_count 0 0 1 \<le> k \<and> Suc k < length ys \<longrightarrow>
               accepted (\<lambda>y'. ys ! k + 1 * y') (1 / 1000000) 2
                 (ys ! k + 1 * ys ! k) (ys ! Suc k)"
    by blast
  from r e have ys: "ys = [1, 4]" by simp
  have "backward_count 0 0 1 \<le> 0 \<and> Suc 0 < length ys"
    unfolding ys by (simp add: backward_count_self)
  with fw have "accepted (\<lambda>y'. ys ! 0 + 1 * y') (1 / 1000000) 2 (ys ! 0 + 1 * ys ! 0) (ys ! Suc 0)"
    by blast
  then have "accepted (\<lambda>y'. 1 + 1 * y') (1 / 1000000) 2 (1 + 1 * 1) 4"
    unfolding ys by simp
  with e show ?thesis by blast
qed

theorem last_computed_iterate_not_accepted:
  "euler_implicit (\<lambda>t y. y) 0 1 0 1 1 (1 / 1000000) 2 = Inr ([0, 1], [1, 4])
   \<and> fixed_point_loop (\<lambda>y'. 1 + 1 * y') (1 / 1000000) 2 0 (1 + 1 * 1) = (4, 5, 3)
   \<and> \<not> (\<exists>ts ys. euler_implicit (\<lambda>t y. y) 0 1 0 1 1 (1 / 1000000) 2 = Inr (ts, ys) \<and>
           ys ! 1 = fst (snd (fixed_point_loop (\<lambda>y'. 1 + 1 * y') (1 / 1000000) 2 0 (1 + 1 * 1))))"
proof -
  have e: "euler_implicit (\<lambda>t y. y) 0 1 0 1 1 (1 / 1000000) 2 = Inr ([0, 1], [1, 4])"
    by (simp add: euler_implicit_def for_range_def py_round_def Let_def fixed_point_loop.simps)
  have l: "fixed_point_loop (\<lambda>y'. 1 + 1 * y') (1 / 1000000) 2 0 (1 + 1 * 1) = (4, 5, 3)"
    by (simp add: fixed_point_loop.simps)
  show ?thesis unfolding e l by simp
qed

subsection \<open>C10: every solver call terminates\<close>

text \<open>
  Claim C10. For \<open>h > 0\<close>, \<open>a \<le> t0 \<le> b\<close>, any derivative function, any threshold and an
  epoch cap \<open>epochs \<ge> 0\<close>, every solver call returns a trajectory: the backward loop
  contributes exactly \<open>round((t0 - a)/h)\<close> samples and the forward loop exactly
  \<open>round((b - t0)/h)\<close>, one per iteration, and every run of the inner fixed-point loop
  (started with \<open>epoch = 0\<close>, as the solvers start it) ends after at least one and at most
  \<open>epochs + 1\<close> passes. The loop is a total function: its termination is proved where
  \<open>fixed_point_loop\<close> is defined.
\<close>

theorem solver_calls_terminate:
  assumes "S \<in> solvers" "a \<le> t0" "t0 \<le> b" "0 < h" "0 \<le> epochs"
  shows "(\<exists>buffer fwd. S f a b t0 y0 h = Inr (unzip (rev buffer @ [(t0, y0)] @ fwd)) \<and>
            int (length buffer) = py_round ((t0 - a) / h) \<and>
            int (length fwd) = py_round ((b - t0) / h))
       \<and> 1 \<le> snd (snd (fixed_point_loop upd threshold epochs 0 seed))
       \<and> snd (snd (fixed_point_loop upd threshold epochs 0 seed)) \<le> epochs + 1"
proof -
  obtain ub uf where S:
    "\<And>f a b t0 y0 h. S f a b t0 y0 h = bidirectional (ub f h) (uf f h) a b t0 y0 h"
    using solvers_bidirectional [OF assms(1)] by blast
  show ?thesis
    unfolding S
    using bidirectional_passes [OF assms(2-4), of "ub f h" "uf f h" y0]
      fixed_point_loop_epoch_bound [OF assms(5), of upd threshold seed]
    by blast
qed

theorem solver_calls_terminate_witness:
  "euler_implicit (\<lambda>t y. - y) 0 1 (1 / 2) 1 (1 / 2) (1 / 10) 3 =
     Inr ([0, 1 / 2, 1], [15 / 8, 1, 5 / 8])
   \<and> (\<exists>buffer fwd. euler_implicit (\<lambda>t y. - y) 0 1 (1 / 2) 1 (1 / 2) (1 / 10) 3 =
          Inr (unzip (rev buffer @ [(1 / 2, 1)] @ fwd)) \<and>
          int (length buffer) = py_round ((1 / 2 - 0) / (1 / 2)) \<and>
          int (length fwd) = py_round ((1 - 1 / 2) / (1 / 2)))
   \<and> fixed_point_loop (\<lambda>y'. 1 + 1 / 2 * - y') (1 / 10) 3 0 (1 + 1 / 2 * - 1) = (5 / 8, 11 / 16, 3)
   \<and> 1 \<le> snd (snd (fixed_point_loop (\<lambda>y'. 1 + 1 / 2 * - y') (1 / 10) 3 0 (1 + 1 / 2 * - 1)))
   \<and> snd (snd (fixed_point_loop (\<lambda>y'. 1 + 1 / 2 * - y') (1 / 10) 3 0 (1 + 1 / 2 * - 1))) \<le> 3 + 1"
proof -
  have e: "euler_implicit (\<lambda>t y. - y) 0 1 (1 / 2) 1 (1 / 2) (1 / 10) 3 =
     Inr ([0, 1 / 2, 1], [15 / 8, 1, 5 / 8])"
    by (simp add: euler_implicit_def for_range_def py_round_def Let_def fixed_point_loop.simps)
  have l: "fixed_point_loop (\<lambda>y'. 1 + 1 / 2 * - y') (1 / 10) 3 0 (1 + 1 / 2 * - 1) = (5 / 8, 11 / 16, 3)"
    by (simp add: fixed_point_loop.simps)
  have "(0::real) \<le> 1 / 2" "(1 / 2::real) \<le> 1" "(0::real) < 1 / 2" "(0::int) \<le> 3" by simp_all
  from solver_calls_terminate [OF solvers.implicit this, where f = "\<lambda>t y. - y" and ?y0.0 = 1
      and threshold1 = "1 / 10" and epochs1 = 3 and upd = "\<lambda>y'. 1 + 1 / 2 * - y'"
      and threshold = "1 / 10" and seed = "1 + 1 / 2 * - 1"]
  show ?thesis using e l by blast
qed

subsection \<open>C5: precondition violations\<close>

text \<open>
  Claim C5, as amended. A solver call with \<open>t0\<close> outside \<open>[a, b]\<close> fails at once with an
  assertion error, and the timing harness called with a repetition count that is not
  positive fails at once with an assertion error, before any solver call. A solver call
  with step size \<open>h = 0\<close> (and \<open>t0\<close> in range) fails with a division by zero when the number
  of backward steps is computed, before any step. A negative step size is not rejected:
  the call returns the trajectory of the single sample \<open>(t0, y0)\<close>.

  The claim as stated, with a failure for every non-positive step size, fails for
  \<open>h = -1\<close>: the explicit solver on \<open>[0, 1]\<close> from \<open>(0, 1)\<close> returns \<open>([0], [1])\<close>.
\<close>

theorem precondition_violations:
  assumes "S \<in> solvers"
  shows "(\<not> (a \<le> t0 \<and> t0 \<le> b) \<longrightarrow> S f a b t0 y0 h = Inl AssertionError)
       \<and> (a \<le> t0 \<and> t0 \<le> b \<and> h = 0 \<longrightarrow> S f a b t0 y0 h = Inl ZeroDivisionError)
       \<and> (a \<le> t0 \<and> t0 \<le> b \<and> h < 0 \<longrightarrow> S f a b t0 y0 h = Inr ([t0], [y0]))
       \<and> (epochs \<le> 0 \<longrightarrow>
            analyse_time f meth a b t0 y0 h epochs t_start t_end = Inl AssertionError)"
proof -
  obtain ub uf where S:
    "\<And>f a b t0 y0 h. S f a b t0 y0 h = bidirectional (ub f h) (uf f h) a b t0 y0 h"
    using solvers_bidirectional [OF assms(1)] by blast
  show ?thesis
    unfolding S
    by (auto simp: bidirectional_assertion bidirectional_zero_step bidirectional_negative_step
        analyse_time_def)
qed

theorem precondition_violations_witness:
  "euler_improved (\<lambda>t y. y) 0 1 2 1 (1 / 2) = Inl AssertionError
   \<and> euler_improved (\<lambda>t y. y) 0 1 0 1 0 = Inl ZeroDivisionError
   \<and> euler_improved (\<lambda>t y. y) 0 1 0 1 (- 1 / 2) = Inr ([0], [1])
   \<and> analyse_time (\<lambda>t y. y) euler_improved 0 1 0 1 (1 / 2) 0 5 7 = Inl AssertionError"
proof -
  note T = precondition_violations [OF solvers.improved, where f = "\<lambda>t y. y" and a = 0 and b = 1
      and ?y0.0 = 1 and meth = euler_improved and t_start = 5 and t_end = 7]
  have "euler_improved (\<lambda>t y. y) 0 1 2 1 (1 / 2) = Inl AssertionError"
    using T [where ?t0.0 = 2 and h = "1 / 2" and epochs = 0] by simp
  moreover have "euler_improved (\<lambda>t y. y) 0 1 0 1 0 = Inl ZeroDivisionError"
    using T [where ?t0.0 = 0 and h = 0 and epochs = 0] by simp
  moreover have "euler_improved (\<lambda>t y. y) 0 1 0 1 (- 1 / 2) = Inr ([0], [1])"
    using T [where ?t0.0 = 0 and h = "- 1 / 2" and epochs = 0] by simp
  moreover have "analyse_time (\<lambda>t y. y) euler_improved 0 1 0 1 (1 / 2) 0 5 7 = Inl AssertionError"
    using T [where ?t0.0 = 0 and h = "1 / 2" and epochs = 0] by simp
  ultimately show ?thesis by blast
qed

theorem negative_step_is_not_rejected:
  "euler_explicit (\<lambda>t y. y) 0 1 0 1 (- 1) = Inr ([0], [1])
   \<and> \<not> isl (euler_explicit (\<lambda>t y. y) 0 1 0 1 (- 1))"
  by (simp add: euler_explicit_def for_range_def py_round_def Let_def)

subsection \<open>C9: the reference resolution of the two harness variants\<close>

text \<open>
  Claim C9, as amended. For a non-empty list of step sizes, the \<^verbatim>\<open>analysis.py\<close> variant
  takes the last supplied step size \<^verbatim>\<open>h[-1]\<close> as the reference resolution (the finest
  one only when the smallest value is supplied last, as in the default list), and the
  \<^verbatim>\<open>euler.py\<close> variant takes the first, \<^verbatim>\<open>h[0]\<close>. Whenever a variant returns a table (for
  the \<^verbatim>\<open>euler.py\<close> variant: with \<open>a \<le> b\<close> and a positive resolution), its \<open>t\<close> column is
  \<^verbatim>\<open>np.linspace(a, b, round((b - a)/space) + 1)\<close> for its resolution \<open>space\<close>; this is
  the uniform grid \<open>a, a + space, ..., b\<close> when \<open>b - a\<close> is a positive multiple of
  \<open>space\<close>.

  The claim as stated, with the finest step size as the resolution of the
  \<^verbatim>\<open>analysis.py\<close> variant for every list, fails for the step sizes \<open>(1, 2)\<close> on \<open>[0, 2]\<close>:
  the \<open>t\<close> column is \<open>[0, 2]\<close>.
\<close>

theorem reference_resolution_choice:
  assumes "hs \<noteq> []" "a \<le> b"
  shows "(analyse_step_len f meth a b t0 y0 hs = Inr df \<longrightarrow>
            (\<exists>axis. linspace a b (py_round ((b - a) / last hs) + 1) = Inr axis \<and>
               get_column df T_col = Some (map Some axis)))
       \<and> (0 < hd hs \<and> analyse_step_len_euler f meth a b t0 y0 hs = Inr df' \<longrightarrow>
            (\<exists>axis. linspace a b (py_round ((b - a) / hd hs) + 1) = Inr axis \<and>
               get_column df' T_col = Some (map Some axis)))
       \<and> (1 \<le> M \<and> b - a = real M * space \<and> 0 < space \<longrightarrow>
            linspace a b (py_round ((b - a) / space) + 1) =
              Inr (map (\<lambda>i. a + real i * space) [0..<Suc M]))"
proof -
  have "linspace a b (py_round ((b - a) / space) + 1) =
          Inr (map (\<lambda>i. a + real i * space) [0..<Suc M])"
    if "1 \<le> M" "b - a = real M * space" "0 < space"
  proof -
    have "(b - a) / space = real M" using that by simp
    then show ?thesis
      using linspace_uniform [OF that(2,1)] by (simp add: py_round_of_nat del: upt_Suc)
  qed
  then show ?thesis
    using analyse_step_len_axis [OF assms(1)] analyse_step_len_euler_axis [OF assms]
    by blast
qed

theorem reference_resolution_choice_witness:
  "analyse_step_len (\<lambda>t y. y) euler_explicit 0 2 0 1 [2, 1] =
     Inr \<lparr>nrows = 3, columns = [(T_col, [Some 0, Some 1, Some 2]),
            (Y_col 2, [Some 1, None, Some 3]), (Y_col 1, [Some 1, Some 2, Some 4])]\<rparr>
   \<and> analyse_step_len_euler (\<lambda>t y. y) euler_explicit 0 2 0 1 [2, 1] =
     Inr \<lparr>nrows = 2, columns = [(T_col, [Some 0, Some 2]),
            (Y_col 2, [Some 1, Some 3]), (Y_col 1, [Some 1, Some 4])]\<rparr>
   \<and> (\<exists>axis. linspace 0 2 (py_round ((2 - 0) / last [2, 1]) + 1) = Inr axis \<and>
         get_column \<lparr>nrows = 3, columns = [(T_col, [Some 0, Some 1, Some 2]),
            (Y_col 2, [Some 1, None, Some 3]), (Y_col 1, [Some 1, Some 2, Some 4])]\<rparr> T_col =
           Some (map Some axis))
   \<and> (\<exists>axis. linspace 0 2 (py_round ((2 - 0) / hd [2, 1]) + 1) = Inr axis \<and>
         get_column \<lparr>nrows = 2, columns = [(T_col, [Some 0, Some 2]),
            (Y_col 2, [Some 1, Some 3]), (Y_col 1, [Some 1, Some 4])]\<rparr> T_col =
           Some (map Some axis))
   \<and> linspace 0 2 (py_round ((2 - 0) / 1) + 1) = Inr (map (\<lambda>i. 0 + real i * 1) [0..<Suc 2])"
proof -
  have e1: "analyse_step_len (\<lambda>t y. y) euler_explicit 0 2 0 1 [2, 1] =
     Inr \<lparr>nrows = 3, columns = [(T_col, [Some 0, Some 1, Some 2]),
            (Y_col 2, [Some 1, None, Some 3]), (Y_col 1, [Some 1, Some 2, Some 4])]\<rparr>"
    by (simp add: analyse_step_len_def euler_explicit_def for_range_def py_round_def Let_def
        linspace_def set_item_def set_item_nan_def empty_frame_def list_setitem_def
        eval_nat_numeral)
  have e2: "analyse_step_len_euler (\<lambda>t y. y) euler_explicit 0 2 0 1 [2, 1] =
     Inr \<lparr>nrows = 2, columns = [(T_col, [Some 0, Some 2]),
            (Y_col 2, [Some 1, Some 3]), (Y_col 1, [Some 1, Some 4])]\<rparr>"
    by (simp add: analyse_step_len_euler_def euler_explicit_def for_range_def py_round_def Let_def
        linspace_def set_item_def empty_frame_def range_step_def eval_nat_numeral)
  have "[2, 1] \<noteq> ([]::real list)" "(0::real) \<le> 2" by simp_all
  note T = reference_resolution_choice [OF this, where f = "\<lambda>t y. y" and meth = euler_explicit
      and ?t0.0 = 0 and ?y0.0 = 1 and M = 2 and space = 1
      and df = "\<lparr>nrows = 3, columns = [(T_col, [Some 0, Some 1, Some 2]),
            (Y_col 2, [Some 1, None, Some 3]), (Y_col 1, [Some 1, Some 2, Some 4])]\<rparr>"
      and df' = "\<lparr>nrows = 2, columns = [(T_col, [Some 0, Some 2]),
            (Y_col 2, [Some 1, Some 3]), (Y_col 1, [Some 1, Some 4])]\<rparr>"]
  have p1: "0 < hd [2, 1::real]" by simp
  have p3: "1 \<le> (2::nat) \<and> (2::real) - 0 = real 2 * 1 \<and> (0::real) < 1" by simp
  from T e1 e2 p1 p3 show ?thesis by blast
qed

theorem last_step_size_need_not_be_finest:
  "analyse_step_len (\<lambda>t y. y) euler_explicit 0 2 0 1 [1, 2] =
     Inr \<lparr>nrows = 2, columns = [(T_col, [Some 0, Some 2]),
            (Y_col 1, [Some 2, Some 4]), (Y_col 2, [Some 1, Some 3])]\<rparr>
   \<and> Min (set [1, 2 :: real]) = 1
   \<and> linspace 0 2 (py_round ((2 - 0) / Min (set [1, 2])) + 1) = Inr [0, 1, 2]
   \<and> \<not> (\<exists>df axis. analyse_step_len (\<lambda>t y. y) euler_explicit 0 2 0 1 [1, 2] = Inr df \<and>
           linspace 0 2 (py_round ((2 - 0) / Min (set [1, 2])) + 1) = Inr axis \<and>
           get_column df T_col = Some (map Some axis))"
proof -
  have e: "analyse_step_len (\<lambda>t y. y) euler_explicit 0 2 0 1 [1, 2] =
     Inr \<lparr>nrows = 2, columns = [(T_col, [Some 0, Some 2]),
            (Y_col 1, [Some 2, Some 4]), (Y_col 2, [Some 1, Some 3])]\<rparr>"
    by (simp add: analyse_step_len_def euler_explicit_def for_range_def py_round_def Let_def
        linspace_def set_item_def set_item_nan_def empty_frame_def list_setitem_def
        eval_nat_numeral)
  have m: "Min (set [1, 2 :: real]) = 1" by simp
  have l: "linspace 0 2 (py_round ((2 - 0) / 1) + 1) = Inr [0, 1, 2]"
    by (simp add: linspace_def py_round_def eval_nat_numeral)
  show ?thesis unfolding e m l by (simp add: get_column_def)
qed

subsection \<open>C6: when the comparison harness fails\<close>

text \<open>
  Claim C6, as amended. \<^verbatim>\<open>analyse_step_len\<close> of \<^verbatim>\<open>analysis.py\<close> does not test whether the
  ratio of a step size to the reference resolution is an integer. For a non-empty list
  of step sizes it returns a table exactly when the reference resolution is not zero,
  the number of grid points \<open>round((b - a)/space) + 1\<close> is not negative, every solver call
  returns, and every index \<open>round(j * h[i] / space)\<close> of a trajectory sample is an index
  of the table; it fails otherwise. With a ratio that is not an integer and all indices
  in the table, it returns a table with the values at the rounded indices.

  The claim as stated, with a failure whenever a ratio is not an integer, fails for the
  step sizes \<open>(3, 2)\<close> on \<open>[0, 6]\<close>: the ratio is \<open>3/2\<close> and a table of four rows is returned.
\<close>

theorem analyse_step_len_fails_iff:
  assumes "hs \<noteq> []"
  shows "(\<exists>df. analyse_step_len f method a b t0 y0 hs = Inr df) \<longleftrightarrow>
           last hs \<noteq> 0 \<and> 0 \<le> py_round ((b - a) / last hs) + 1 \<and>
           (\<forall>hi\<in>set hs. \<exists>t y. method f a b t0 y0 hi = Inr (t, y) \<and>
              (\<forall>j<length y. index_in_table (nat (py_round ((b - a) / last hs) + 1))
                               (py_round (real j * hi / last hs))))"
proof (cases "last hs \<noteq> 0 \<and> 0 \<le> py_round ((b - a) / last hs) + 1")
  case False
  then have "\<exists>e. analyse_step_len f method a b t0 y0 hs = Inl e"
    using assms linspace_Inr_iff [of a b "py_round ((b - a) / last hs) + 1"]
    by (cases "linspace a b (py_round ((b - a) / last hs) + 1)")
      (auto simp: analyse_step_len_def Let_def)
  then show ?thesis using False by auto
next
  case True
  then obtain axis where l: "linspace a b (py_round ((b - a) / last hs) + 1) = Inr axis"
    using linspace_Inr_iff [of a b "py_round ((b - a) / last hs) + 1"] by blast
  let ?df = "\<lparr>nrows = length (map Some axis), columns = [(T_col, map Some axis)]\<rparr>"
  have "analyse_step_len f method a b t0 y0 hs =
          step_len_columns f method a b t0 y0 (last hs) hs ?df"
    using True assms l by (simp add: analyse_step_len_def Let_def set_item_empty_frame)
  moreover have "nrows ?df = nat (py_round ((b - a) / last hs) + 1)"
    using linspace_length_nat [OF l] by simp
  ultimately show ?thesis
    using True step_len_columns_Inr_iff [of f "method" a b t0 y0 "last hs" hs ?df] by simp
qed

theorem incommensurate_step_sizes_give_a_table:
  "analyse_step_len (\<lambda>t y. y) euler_explicit 0 6 0 1 [3, 2] =
     Inr \<lparr>nrows = 4, columns = [(T_col, [Some 0, Some 2, Some 4, Some 6]),
            (Y_col 3, [Some 1, None, Some 4, Some 16]),
            (Y_col 2, [Some 1, Some 3, Some 9, Some 27])]\<rparr>
   \<and> (3::real) / last [3, 2] \<notin> \<int>
   \<and> \<not> isl (analyse_step_len (\<lambda>t y. y) euler_explicit 0 6 0 1 [3, 2])"
proof -
  have e: "analyse_step_len (\<lambda>t y. y) euler_explicit 0 6 0 1 [3, 2] =
     Inr \<lparr>nrows = 4, columns = [(T_col, [Some 0, Some 2, Some 4, Some 6]),
            (Y_col 3, [Some 1, None, Some 4, Some 16]),
            (Y_col 2, [Some 1, Some 3, Some 9, Some 27])]\<rparr>"
    by (simp add: analyse_step_len_def euler_explicit_def for_range_def py_round_def Let_def
        linspace_def set_item_def set_item_nan_def empty_frame_def list_setitem_def
        eval_nat_numeral)
  show ?thesis unfolding e using three_halves_not_int by simp
qed

theorem analyse_step_len_fails_iff_witness:
  "analyse_step_len (\<lambda>t y. y) euler_explicit 0 6 0 1 [3, 2] =
     Inr \<lparr>nrows = 4, columns = [(T_col, [Some 0, Some 2, Some 4, Some 6]),
            (Y_col 3, [Some 1, None, Some 4, Some 16]),
            (Y_col 2, [Some 1, Some 3, Some 9, Some 27])]\<rparr>
   \<and> last [3, 2 :: real] \<noteq> 0 \<and> 0 \<le> py_round ((6 - 0) / last [3, 2]) + 1
   \<and> (\<exists>t y. euler_explicit (\<lambda>t y. y) 0 6 0 1 3 = Inr (t, y) \<and>
         (\<forall>j<length y. index_in_table (nat (py_round ((6 - 0) / last [3, 2]) + 1))
                          (py_round (real j * 3 / last [3, 2]))))
   \<and> (\<exists>t y. euler_explicit (\<lambda>t y. y) 0 6 0 1 2 = Inr (t, y) \<and>
         (\<forall>j<length y. index_in_table (nat (py_round ((6 - 0) / last [3, 2]) + 1))
                          (py_round (real j * 2 / last [3, 2]))))"
proof -
  have e: "analyse_step_len (\<lambda>t y. y) euler_explicit 0 6 0 1 [3, 2] =
     Inr \<lparr>nrows = 4, columns = [(T_col, [Some 0, Some 2, Some 4, Some 6]),
            (Y_col 3, [Some 1, None, Some 4, Some 16]),
            (Y_col 2, [Some 1, Some 3, Some 9, Some 27])]\<rparr>"
    by (simp add: analyse_step_len_def euler_explicit_def for_range_def py_round_def Let_def
        linspace_def set_item_def set_item_nan_def empty_frame_def list_setitem_def
        eval_nat_numeral)
  have ne: "[3, 2] \<noteq> ([]::real list)" by simp
  have "\<exists>df. analyse_step_len (\<lambda>t y. y) euler_explicit 0 6 0 1 [3, 2] = Inr df"
    unfolding e by blast
  then have "last [3, 2 :: real] \<noteq> 0 \<and> 0 \<le> py_round ((6 - 0) / last [3, 2]) + 1 \<and>
      (\<forall>hi\<in>set [3, 2]. \<exists>t y. euler_explicit (\<lambda>t y. y) 0 6 0 1 hi = Inr (t, y) \<and>
         (\<forall>j<length y. index_in_table (nat (py_round ((6 - 0) / last [3, 2]) + 1))
                          (py_round (real j * hi / last [3, 2]))))"
    unfolding analyse_step_len_fails_iff [OF ne, of "\<lambda>t y. y" euler_explicit 0 6 0 1] .
  then show ?thesis using e by (simp only: list.set ball_simps) blast
qed

subsection \<open>C4: the columns of the table against the trajectories\<close>

text \<open>
  Claim C4, as amended. Let the reference resolution \<open>space\<close>, the last supplied step
  size, be positive, and let every supplied step size \<open>h\<close> be a positive whole multiple
  \<open>k * space\<close> of it with \<open>t0 - a\<close> and \<open>b - t0\<close> whole multiples of \<open>h\<close>. Then for every
  solver the harness of \<^verbatim>\<open>analysis.py\<close> returns a table, and for every supplied \<open>h\<close> the
  entries of its column that are not missing, read in order, are exactly the \<open>y\<close> values
  of the trajectory of the solver called on its own with step size \<open>h\<close>; the \<open>j\<close>-th
  value stands in row \<open>j * k\<close>, where the shared axis has the sample's own time.

  The claim as stated, for every list of step sizes, fails for the step sizes \<open>(1, 2)\<close>
  on \<open>[0, 2]\<close> from \<open>(0, 1)\<close>: the column of step size \<open>1\<close> holds \<open>[2, 4]\<close>, the
  trajectory is \<open>[1, 2, 4]\<close>.
\<close>

theorem columns_reproduce_trajectories:
  assumes "S \<in> solvers" "hs \<noteq> []" "0 < last hs"
    and "\<forall>hi\<in>set hs. \<exists>k n m. 1 \<le> k \<and> hi = real k * last hs \<and>
           t0 - a = real n * hi \<and> b - t0 = real m * hi"
  shows "\<exists>df axis. analyse_step_len f S a b t0 y0 hs = Inr df \<and>
           get_column df T_col = Some (map Some axis) \<and>
           (\<forall>hi\<in>set hs. \<exists>ts ys col k.
              S f a b t0 y0 hi = Inr (ts, ys) \<and>
              get_column df (Y_col hi) = Some col \<and> length col = length axis \<and>
              hi = real k * last hs \<and>
              map the (filter (\<lambda>v. v \<noteq> None) col) = ys \<and>
              (\<forall>j<length ys. col ! (j * k) = Some (ys ! j) \<and> axis ! (j * k) = ts ! j))"
proof -
  define space where "space = last hs"
  have space: "0 < space" using assms(3) by (simp add: space_def)
  obtain ub uf where S:
    "\<And>f a b t0 y0 h. S f a b t0 y0 h = bidirectional (ub f h) (uf f h) a b t0 y0 h"
    using solvers_bidirectional [OF assms(1)] by blast
  have steps: "\<exists>k n m. 1 \<le> k \<and> hi = real k * space \<and> t0 - a = real n * hi \<and> b - t0 = real m * hi"
    if "hi \<in> set hs" for hi
    using assms(4) that unfolding space_def by blast
  have "last hs \<in> set hs" using assms(2) by simp
  from steps [OF this] obtain k0 n0 m0 where
    "last hs = real k0 * space" "t0 - a = real n0 * last hs" "b - t0 = real m0 * last hs"
    by blast
  then have "b - a = real ((n0 + m0) * k0) * space"
    by (simp add: algebra_simps)
  then obtain M where M: "b - a = real M * space" by blast
  let ?axis = "map (\<lambda>i. a + real i * space) [0..<Suc M]"
  let ?df0 = "\<lparr>nrows = length (map Some ?axis), columns = [(T_col, map Some ?axis)]\<rparr>"
  have n0: "nrows ?df0 = Suc M" by simp
  define col where
    "col hi = spread (Suc M) (nat (py_round (hi / space))) (snd (projr (S f a b t0 y0 hi)))" for hi
  have each: "\<exists>ts ys k. S f a b t0 y0 hi = Inr (ts, ys) \<and> hi = real k * space \<and>
           place hi space ys 0 (replicate (Suc M) None) = Inr (col hi) \<and>
           map the (filter (\<lambda>v. v \<noteq> None) (col hi)) = ys \<and>
           (\<forall>j<length ys. col hi ! (j * k) = Some (ys ! j) \<and> ?axis ! (j * k) = ts ! j)"
    if "hi \<in> set hs" for hi
  proof -
    from steps [OF that] obtain k n m where
      k: "1 \<le> k" "hi = real k * space" and n: "t0 - a = real n * hi" and m: "b - t0 = real m * hi"
      by blast
    have "hi / space = real k" using k(2) space by simp
    then have kk: "nat (py_round (hi / space)) = k" by (simp add: py_round_of_nat)
    from column_of_commensurate_step [OF space k n m M, of "ub f hi" "uf f hi" y0]
    obtain ts ys where r: "S f a b t0 y0 hi = Inr (ts, ys)"
      and p: "place hi space ys 0 (replicate (Suc M) None) = Inr (spread (Suc M) k ys)"
      and v: "map the (filter (\<lambda>v. v \<noteq> None) (spread (Suc M) k ys)) = ys"
      and at: "\<forall>j<length ys. j * k < Suc M \<and> spread (Suc M) k ys ! (j * k) = Some (ys ! j) \<and>
                          a + real (j * k) * space = ts ! j"
      unfolding S by blast
    have c: "col hi = spread (Suc M) k ys" unfolding col_def kk r by simp
    have ax: "?axis ! (j * k) = ts ! j" if j: "j < length ys" for j
    proof -
      have lt: "j * k < Suc M" and eq: "a + real (j * k) * space = ts ! j"
        using at j by blast+
      have "?axis ! (j * k) = a + real (j * k) * space"
        using lt nth_map_upt [of "j * k" "Suc M" 0 "\<lambda>i. a + real i * space"] by simp
      with eq show ?thesis by simp
    qed
    have at': "\<forall>j<length ys. spread (Suc M) k ys ! (j * k) = Some (ys ! j) \<and> ?axis ! (j * k) = ts ! j"
      using at ax by blast
    show ?thesis
      unfolding c using r k(2) p v at' by blast
  qed
  have "\<exists>t y. S f a b t0 y0 hi = Inr (t, y) \<and>
              place hi space y 0 (replicate (nrows ?df0) None) = Inr (col hi)"
    if "hi \<in> set hs" for hi
    unfolding n0 using each [OF that] by blast
  from step_len_columns_columns [of hs S f a b t0 y0 space ?df0 col, OF this]
  obtain df where r: "step_len_columns f S a b t0 y0 space hs ?df0 = Inr df"
    and c: "\<forall>hi\<in>set hs. get_column df (Y_col hi) = Some (col hi)"
    and t: "get_column df T_col = get_column ?df0 T_col"
    by blast
  have run: "analyse_step_len f S a b t0 y0 hs = Inr df"
    using assms(2) space linspace_grid [OF M space] r
    by (simp add: analyse_step_len_def Let_def set_item_empty_frame space_def [symmetric])
  have tcol: "get_column df T_col = Some (map Some ?axis)"
    using t by (simp add: get_column_def)
  have cols: "\<exists>ts ys c k. S f a b t0 y0 hi = Inr (ts, ys) \<and>
              get_column df (Y_col hi) = Some c \<and> length c = length ?axis \<and>
              hi = real k * last hs \<and>
              map the (filter (\<lambda>v. v \<noteq> None) c) = ys \<and>
              (\<forall>j<length ys. c ! (j * k) = Some (ys ! j) \<and> ?axis ! (j * k) = ts ! j)"
    if "hi \<in> set hs" for hi
  proof -
    from each [OF that] obtain ts ys k where
      e: "S f a b t0 y0 hi = Inr (ts, ys)" "hi = real k * space"
         "map the (filter (\<lambda>v. v \<noteq> None) (col hi)) = ys"
         "\<forall>j<length ys. col hi ! (j * k) = Some (ys ! j) \<and> ?axis ! (j * k) = ts ! j"
      by blast
    have "length (col hi) = length ?axis"
      unfolding col_def by (simp add: length_spread del: upt_Suc)
    with e c that show ?thesis unfolding space_def by blast
  qed
  show ?thesis
    using run tcol cols by blast
qed

theorem columns_reproduce_trajectories_witness:
  "analyse_step_len (\<lambda>t y. y) euler_explicit 0 2 0 1 [2, 1] =
     Inr \<lparr>nrows = 3, columns = [(T_col, [Some 0, Some 1, Some 2]),
            (Y_col 2, [Some 1, None, Some 3]), (Y_col 1, [Some 1, Some 2, Some 4])]\<rparr>
   \<and> euler_explicit (\<lambda>t y. y) 0 2 0 1 2 = Inr ([0, 2], [1, 3])
   \<and> euler_explicit (\<lambda>t y. y) 0 2 0 1 1 = Inr ([0, 1, 2], [1, 2, 4])
   \<and> (\<exists>df axis. analyse_step_len (\<lambda>t y. y) euler_explicit 0 2 0 1 [2, 1] = Inr df \<and>
         get_column df T_col = Some (map Some axis) \<and>
         (\<forall>hi\<in>set [2, 1]. \<exists>ts ys col k.
            euler_explicit (\<lambda>t y. y) 0 2 0 1 hi = Inr (ts, ys) \<and>
            get_column df (Y_col hi) = Some col \<and> length col = length axis \<and>
            hi = real k * last [2, 1] \<and>
            map the (filter (\<lambda>v. v \<noteq> None) col) = ys \<and>
            (\<forall>j<length ys. col ! (j * k) = Some (ys ! j) \<and> axis ! (j * k) = ts ! j)))"
proof -
  have e: "analyse_step_len (\<lambda>t y. y) euler_explicit 0 2 0 1 [2, 1] =
     Inr \<lparr>nrows = 3, columns = [(T_col, [Some 0, Some 1, Some 2]),
            (Y_col 2, [Some 1, None, Some 3]), (Y_col 1, [Some 1, Some 2, Some 4])]\<rparr>"
    by (simp add: analyse_step_len_def euler_explicit_def for_range_def py_round_def Let_def
        linspace_def set_item_def set_item_nan_def empty_frame_def list_setitem_def
        eval_nat_numeral)
  have s2: "euler_explicit (\<lambda>t y. y) 0 2 0 1 2 = Inr ([0, 2], [1, 3])"
    by (simp add: euler_explicit_def for_range_def py_round_def Let_def)
  have s1: "euler_explicit (\<lambda>t y. y) 0 2 0 1 1 = Inr ([0, 1, 2], [1, 2, 4])"
    by (simp add: euler_explicit_def for_range_def py_round_def Let_def eval_nat_numeral)
  have ne: "[2, 1] \<noteq> ([]::real list)" and pos: "0 < last [2, 1 :: real]" by simp_all
  have h2: "\<exists>k n m. 1 \<le> k \<and> (2::real) = real k * last [2, 1] \<and>
      (0::real) - 0 = real n * 2 \<and> (2::real) - 0 = real m * 2"
    by (intro exI [of _ 2] exI [of _ 0] exI [of _ 1]) simp
  have h1: "\<exists>k n m. 1 \<le> k \<and> (1::real) = real k * last [2, 1] \<and>
      (0::real) - 0 = real n * 1 \<and> (2::real) - 0 = real m * 1"
    by (intro exI [of _ 1] exI [of _ 0] exI [of _ 2]) simp
  have hyp: "\<forall>hi\<in>set [2, 1 :: real]. \<exists>k n m. 1 \<le> k \<and> hi = real k * last [2, 1] \<and>
      (0::real) - 0 = real n * hi \<and> (2::real) - 0 = real m * hi"
    using h1 h2 by (simp only: list.set ball_simps)
  from columns_reproduce_trajectories [OF solvers.explicit ne pos hyp, of "\<lambda>t y. y" 1] e s1 s2
  show ?thesis by blast
qed

theorem overwritten_column_loses_samples:
  "analyse_step_len (\<lambda>t y. y) euler_explicit 0 2 0 1 [1, 2] =
     Inr \<lparr>nrows = 2, columns = [(T_col, [Some 0, Some 2]),
            (Y_col 1, [Some 2, Some 4]), (Y_col 2, [Some 1, Some 3])]\<rparr>
   \<and> euler_explicit (\<lambda>t y. y) 0 2 0 1 1 = Inr ([0, 1, 2], [1, 2, 4])
   \<and> \<not> (\<exists>df col ts ys. analyse_step_len (\<lambda>t y. y) euler_explicit 0 2 0 1 [1, 2] = Inr df \<and>
           get_column df (Y_col 1) = Some col \<and>
           euler_explicit (\<lambda>t y. y) 0 2 0 1 1 = Inr (ts, ys) \<and>
           map the (filter (\<lambda>v. v \<noteq> None) col) = ys)"
proof -
  have e: "analyse_step_len (\<lambda>t y. y) euler_explicit 0 2 0 1 [1, 2] =
     Inr \<lparr>nrows = 2, columns = [(T_col, [Some 0, Some 2]),
            (Y_col 1, [Some 2, Some 4]), (Y_col 2, [Some 1, Some 3])]\<rparr>"
    by (simp add: analyse_step_len_def euler_explicit_def for_range_def py_round_def Let_def
        linspace_def set_item_def set_item_nan_def empty_frame_def list_setitem_def
        eval_nat_numeral)
  have s1: "euler_explicit (\<lambda>t y. y) 0 2 0 1 1 = Inr ([0, 1, 2], [1, 2, 4])"
    by (simp add: euler_explicit_def for_range_def py_round_def Let_def eval_nat_numeral)
  show ?thesis unfolding e s1 by (auto simp: get_column_def)
qed

subsection \<open>C7: the forward pass does not depend on the backward pass\<close>




subsection \<open>C8: the time sequence is increasing and spans the interval\<close>




end
